theory Spec2Isabelle
  imports Main "HOL-Library.Multiset"
begin

section \<open>Data model: the SQLite schema of \<open>BingoDB._init_db\<close>\<close>

text \<open>
  The TEXT columns that hold one of a fixed set of words are datatypes, in the order of
  the schema comments. Integer columns are Python integers (\<open>int\<close>). A timestamp is
  stored as an ISO string and parsed back before it is compared, so it is modelled by the
  instant it denotes (an \<open>int\<close>). A nullable column is an \<open>option\<close>.
\<close>

datatype bingo_status = Setup | SignupOpen | SignupClosed | Running | Ended

datatype submission_status = Pending | Approved | Rejected

datatype submission_kind = Progress | FullTile

datatype approvals_mode = ModeNone | ModeAdmin | ModeNonteammate

datatype show_board_when = SignupCreated | SignupsClose | BingoStart

record guild_settings =
  gs_guild_id :: int
  signup_channel_id :: int
  submissions_channel_id :: int
  announcements_channel_id :: int
  board_channel_id :: int

record bingo =
  b_id :: int
  b_guild_id :: int
  b_name :: string
  b_game_mode :: string
  b_team_size :: int
  b_team_mode :: string
  b_notify_role_id :: "int option"
  b_start_utc :: int
  b_end_utc :: "int option"
  b_signup_close_utc :: int
  b_show_board_when :: show_board_when
  b_approvals_mode :: approvals_mode
  b_approvals_required :: int
  b_status :: bingo_status
  b_signup_message_id :: "int option"
  b_leaderboard_message_id :: "int option"
  b_board_image_path :: "string option"
  b_created_by_user_id :: int
  b_created_at_utc :: int

record signup =
  su_bingo_id :: int
  su_user_id :: int
  su_joined_at_utc :: int

record team =
  t_bingo_id :: int
  t_team_number :: int
  t_user_id :: int

record submission =
  s_id :: int
  s_bingo_id :: int
  s_user_id :: int
  s_description :: string
  s_kind :: submission_kind
  s_created_at_utc :: int
  s_message_id :: int
  s_attachment_path :: string
  s_status :: submission_status
  s_approvals_required :: int

record approval =
  a_submission_id :: int
  a_user_id :: int
  a_approved_at_utc :: int

text \<open>
  A table is the list of its rows in insertion order. The two AUTOINCREMENT tables carry
  the counter SQLite keeps for them.
\<close>

record db =
  guild_settings_tbl :: "guild_settings list"
  bingos :: "bingo list"
  bingos_seq :: int
  signups :: "signup list"
  teams :: "team list"
  submissions :: "submission list"
  submissions_seq :: int
  approvals :: "approval list"

definition empty_db :: db where
  "empty_db = \<lparr>guild_settings_tbl = [], bingos = [], bingos_seq = 0, signups = [],
     teams = [], submissions = [], submissions_seq = 0, approvals = []\<rparr>"

section \<open>The operations of \<open>BingoDB\<close>\<close>

subsection \<open>Guild settings\<close>

definition upsert_guild_settings :: "guild_settings \<Rightarrow> db \<Rightarrow> db" where
  "upsert_guild_settings gs d =
     (if list_ex (\<lambda>g. gs_guild_id g = gs_guild_id gs) (guild_settings_tbl d)
      then d\<lparr>guild_settings_tbl :=
             map (\<lambda>g. if gs_guild_id g = gs_guild_id gs then gs else g) (guild_settings_tbl d)\<rparr>
      else d\<lparr>guild_settings_tbl := guild_settings_tbl d @ [gs]\<rparr>)"

definition get_guild_settings :: "db \<Rightarrow> int \<Rightarrow> guild_settings option" where
  "get_guild_settings d gid = find (\<lambda>g. gs_guild_id g = gid) (guild_settings_tbl d)"

subsection \<open>Bingo lifecycle\<close>

text \<open>\<open>ORDER BY id DESC LIMIT 1\<close>: the row with the greatest id.\<close>

fun max_id_row :: "bingo list \<Rightarrow> bingo option" where
  "max_id_row [] = None"
| "max_id_row (b # bs) =
     (case max_id_row bs of
        None \<Rightarrow> Some b
      | Some c \<Rightarrow> if b_id b < b_id c then Some c else Some b)"

definition active_status :: "bingo_status \<Rightarrow> bool" where
  "active_status st = (st = Setup \<or> st = SignupOpen \<or> st = SignupClosed \<or> st = Running)"

definition get_active_bingo :: "db \<Rightarrow> int \<Rightarrow> bingo option" where
  "get_active_bingo d gid =
     max_id_row (filter (\<lambda>b. b_guild_id b = gid \<and> active_status (b_status b)) (bingos d))"

definition create_bingo ::
  "int \<Rightarrow> string \<Rightarrow> string \<Rightarrow> int \<Rightarrow> string \<Rightarrow> int option \<Rightarrow> int \<Rightarrow> int option \<Rightarrow> int \<Rightarrow>
   show_board_when \<Rightarrow> approvals_mode \<Rightarrow> int \<Rightarrow> int \<Rightarrow> string option \<Rightarrow> int \<Rightarrow> db \<Rightarrow> int \<times> db" where
  "create_bingo guild_id name game_mode team_size team_mode notify_role_id start_utc end_utc
     signup_close_utc show_board approvals_md approvals_req created_by board_path now d =
     (let new_id = bingos_seq d + 1;
          row = \<lparr>b_id = new_id, b_guild_id = guild_id, b_name = name, b_game_mode = game_mode,
                 b_team_size = team_size, b_team_mode = team_mode,
                 b_notify_role_id = notify_role_id, b_start_utc = start_utc,
                 b_end_utc = end_utc, b_signup_close_utc = signup_close_utc,
                 b_show_board_when = show_board, b_approvals_mode = approvals_md,
                 b_approvals_required = approvals_req, b_status = SignupOpen,
                 b_signup_message_id = None, b_leaderboard_message_id = None,
                 b_board_image_path = board_path, b_created_by_user_id = created_by,
                 b_created_at_utc = now\<rparr>
      in (new_id, d\<lparr>bingos := bingos d @ [row], bingos_seq := new_id\<rparr>))"

definition set_signup_message_id :: "int \<Rightarrow> int \<Rightarrow> db \<Rightarrow> db" where
  "set_signup_message_id bingo_id message_id d =
     d\<lparr>bingos := map (\<lambda>b. if b_id b = bingo_id then b\<lparr>b_signup_message_id := Some message_id\<rparr>
                           else b) (bingos d)\<rparr>"

definition set_leaderboard_message_id :: "int \<Rightarrow> int \<Rightarrow> db \<Rightarrow> db" where
  "set_leaderboard_message_id bingo_id message_id d =
     d\<lparr>bingos := map (\<lambda>b. if b_id b = bingo_id
                           then b\<lparr>b_leaderboard_message_id := Some message_id\<rparr>
                           else b) (bingos d)\<rparr>"

definition set_status :: "int \<Rightarrow> bingo_status \<Rightarrow> db \<Rightarrow> db" where
  "set_status bingo_id st d =
     d\<lparr>bingos := map (\<lambda>b. if b_id b = bingo_id then b\<lparr>b_status := st\<rparr> else b) (bingos d)\<rparr>"

subsection \<open>Signups\<close>

text \<open>\<open>INSERT OR IGNORE\<close> under the primary key \<open>(bingo_id, user_id)\<close>.\<close>

definition add_signup :: "int \<Rightarrow> int \<Rightarrow> int \<Rightarrow> db \<Rightarrow> db" where
  "add_signup bingo_id user_id now d =
     (if list_ex (\<lambda>s. su_bingo_id s = bingo_id \<and> su_user_id s = user_id) (signups d) then d
      else d\<lparr>signups := signups d @
             [\<lparr>su_bingo_id = bingo_id, su_user_id = user_id, su_joined_at_utc = now\<rparr>]\<rparr>)"

definition remove_signup :: "int \<Rightarrow> int \<Rightarrow> db \<Rightarrow> db" where
  "remove_signup bingo_id user_id d =
     d\<lparr>signups := filter (\<lambda>s. \<not> (su_bingo_id s = bingo_id \<and> su_user_id s = user_id)) (signups d)\<rparr>"

definition list_signups :: "db \<Rightarrow> int \<Rightarrow> int list" where
  "list_signups d bingo_id = map su_user_id (filter (\<lambda>s. su_bingo_id s = bingo_id) (signups d))"

subsection \<open>Teams\<close>

definition clear_teams :: "int \<Rightarrow> db \<Rightarrow> db" where
  "clear_teams bingo_id d = d\<lparr>teams := filter (\<lambda>t. t_bingo_id t \<noteq> bingo_id) (teams d)\<rparr>"

text \<open>\<open>INSERT ... ON CONFLICT(bingo_id, user_id) DO UPDATE SET team_number\<close>.\<close>

definition set_team :: "int \<Rightarrow> int \<Rightarrow> int \<Rightarrow> db \<Rightarrow> db" where
  "set_team bingo_id user_id team_number d =
     (if list_ex (\<lambda>t. t_bingo_id t = bingo_id \<and> t_user_id t = user_id) (teams d)
      then d\<lparr>teams := map (\<lambda>t. if t_bingo_id t = bingo_id \<and> t_user_id t = user_id
                                 then t\<lparr>t_team_number := team_number\<rparr> else t) (teams d)\<rparr>
      else d\<lparr>teams := teams d @
             [\<lparr>t_bingo_id = bingo_id, t_team_number = team_number, t_user_id = user_id\<rparr>]\<rparr>)"

definition get_team :: "db \<Rightarrow> int \<Rightarrow> int \<Rightarrow> int option" where
  "get_team d bingo_id user_id =
     map_option t_team_number
       (find (\<lambda>t. t_bingo_id t = bingo_id \<and> t_user_id t = user_id) (teams d))"

text \<open>\<open>ORDER BY team_number\<close>: a stable insertion sort on the team number.\<close>

fun insert_team :: "team \<Rightarrow> team list \<Rightarrow> team list" where
  "insert_team t [] = [t]"
| "insert_team t (u # us) =
     (if t_team_number t < t_team_number u then t # u # us else u # insert_team t us)"

definition list_teams :: "db \<Rightarrow> int \<Rightarrow> (int \<times> int) list" where
  "list_teams d bingo_id =
     map (\<lambda>t. (t_team_number t, t_user_id t))
       (foldl (\<lambda>acc t. insert_team t acc) [] (filter (\<lambda>t. t_bingo_id t = bingo_id) (teams d)))"

subsection \<open>Timing\<close>

text \<open>\<open>ORDER BY id DESC\<close> over the rows in one of the three scanned statuses.\<close>

fun insert_desc :: "bingo \<Rightarrow> bingo list \<Rightarrow> bingo list" where
  "insert_desc b [] = [b]"
| "insert_desc b (c # cs) = (if b_id c < b_id b then b # c # cs else c # insert_desc b cs)"

definition get_due_actions :: "db \<Rightarrow> bingo list" where
  "get_due_actions d =
     foldr insert_desc
       (filter (\<lambda>b. b_status b = SignupOpen \<or> b_status b = SignupClosed \<or> b_status b = Running)
          (bingos d)) []"

subsection \<open>Submissions and approvals\<close>

definition create_submission ::
  "int \<Rightarrow> int \<Rightarrow> string \<Rightarrow> submission_kind \<Rightarrow> int \<Rightarrow> string \<Rightarrow> submission_status \<Rightarrow> int \<Rightarrow>
   int \<Rightarrow> db \<Rightarrow> int \<times> db" where
  "create_submission bingo_id user_id description kind message_id attachment_path st
     approvals_req now d =
     (let new_id = submissions_seq d + 1;
          row = \<lparr>s_id = new_id, s_bingo_id = bingo_id, s_user_id = user_id,
                 s_description = description, s_kind = kind, s_created_at_utc = now,
                 s_message_id = message_id, s_attachment_path = attachment_path,
                 s_status = st, s_approvals_required = approvals_req\<rparr>
      in (new_id, d\<lparr>submissions := submissions d @ [row], submissions_seq := new_id\<rparr>))"

definition get_submission_by_message :: "db \<Rightarrow> int \<Rightarrow> submission option" where
  "get_submission_by_message d message_id =
     find (\<lambda>s. s_message_id s = message_id) (submissions d)"

text \<open>\<open>INSERT OR IGNORE\<close> under the primary key \<open>(submission_id, user_id)\<close>.\<close>

definition add_approval :: "int \<Rightarrow> int \<Rightarrow> int \<Rightarrow> db \<Rightarrow> db" where
  "add_approval submission_id user_id now d =
     (if list_ex (\<lambda>a. a_submission_id a = submission_id \<and> a_user_id a = user_id) (approvals d)
      then d
      else d\<lparr>approvals := approvals d @
             [\<lparr>a_submission_id = submission_id, a_user_id = user_id,
               a_approved_at_utc = now\<rparr>]\<rparr>)"

definition count_approvals :: "db \<Rightarrow> int \<Rightarrow> int" where
  "count_approvals d submission_id =
     int (length (filter (\<lambda>a. a_submission_id a = submission_id) (approvals d)))"

definition set_submission_status :: "int \<Rightarrow> submission_status \<Rightarrow> db \<Rightarrow> db" where
  "set_submission_status submission_id st d =
     d\<lparr>submissions := map (\<lambda>s. if s_id s = submission_id then s\<lparr>s_status := st\<rparr> else s)
                          (submissions d)\<rparr>"

text \<open>
  \<open>leaderboard_counts\<close>: the join of the approved full-tile submissions of the bingo with
  the team rows of their submitters, grouped by team number, ordered by count descending
  and team number ascending.
\<close>

definition leaderboard_join :: "db \<Rightarrow> int \<Rightarrow> int list" where
  "leaderboard_join d bingo_id =
     concat (map (\<lambda>s. map t_team_number
                        (filter (\<lambda>t. t_bingo_id t = s_bingo_id s \<and> t_user_id t = s_user_id s)
                           (teams d)))
               (filter (\<lambda>s. s_bingo_id s = bingo_id \<and> s_status s = Approved \<and> s_kind s = FullTile)
                  (submissions d)))"

definition lb_before :: "int \<times> int \<Rightarrow> int \<times> int \<Rightarrow> bool" where
  "lb_before x y = (snd y < snd x \<or> (snd x = snd y \<and> fst x \<le> fst y))"

fun lb_insert :: "int \<times> int \<Rightarrow> (int \<times> int) list \<Rightarrow> (int \<times> int) list" where
  "lb_insert x [] = [x]"
| "lb_insert x (y # ys) = (if lb_before x y then x # y # ys else y # lb_insert x ys)"

definition lb_sort :: "(int \<times> int) list \<Rightarrow> (int \<times> int) list" where
  "lb_sort xs = foldr lb_insert xs []"

definition leaderboard_counts :: "db \<Rightarrow> int \<Rightarrow> (int \<times> int) list" where
  "leaderboard_counts d bingo_id =
     (let j = leaderboard_join d bingo_id
      in lb_sort (map (\<lambda>tn. (tn, int (count_list j tn))) (remdups j)))"

section \<open>The chat platform seen from the handlers\<close>

text \<open>
  A Python string that is compared with the emoji constants is the list of its code
  points. The three constants are the strings of the source file as it is stored.
\<close>

type_synonym emoji = "nat list"

definition SIGNUP_EMOJI :: emoji where
  "SIGNUP_EMOJI = [226, 339, 8230]"

definition UNSIGN_EMOJI :: emoji where
  "UNSIGN_EMOJI = [226, 338]"

definition APPROVE_EMOJI :: emoji where
  "APPROVE_EMOJI = [240, 376, 8216]"

text \<open>
  The content of a message keeps the values the source formats into it; the rendering to
  text is not modelled. \<open>SignupsClosedMsg\<close> carries the event name and one line per team
  (team number, members); \<open>LeaderboardMsg\<close> the event name and the counts.
\<close>

datatype message =
    SignupsClosedMsg string "(int \<times> int list) list"
  | StartedMsg string
  | ApprovedMsg int
  | LeaderboardMsg string "(int \<times> int) list"
  | BoardMsg string string
  | SubmissionPost string int submission_kind string
  | AwaitingApprovalMsg int
  | NoActiveBingoMsg
  | NotConfiguredMsg
  | WrongChannelMsg int
  | AttachImageMsg
  | KindQuestionMsg
  | MisconfiguredMsg

datatype outbound =
    SendMsg int message
  | FetchMsg int int
  | EditMsg int message
  | AddReaction int emoji
  | SaveAttachment string

datatype db_write =
    SetStatus int bingo_status
  | ClearTeams int
  | SetTeam int int int
  | AddSignup int int
  | RemoveSignup int int
  | AddApproval int int
  | SetSubmissionStatus int submission_status
  | CreateSubmission int
  | SetLeaderboardMessageId int int

datatype action = Write db_write | Out outbound

text \<open>
  The state a handler runs in: the database, and the history of the statements it has
  executed and the platform calls it has made, oldest first.
\<close>

record world =
  wdb :: db
  trace :: "action list"

text \<open>
  What the handlers read from the platform and from the random generator.
  \<open>discord env n call\<close> is the outcome of a platform call made when \<open>n\<close> actions are in
  the history: \<open>None\<close> when the call raises, \<open>Some m\<close> when it returns (\<open>m\<close> is the id of
  the message a send creates). \<open>member_perms\<close> gives the \<open>manage_guild\<close> and
  \<open>administrator\<close> permissions of a member, \<open>None\<close> when the member cannot be obtained.
\<close>

record env =
  bot_user_id :: int
  guild_known :: "int \<Rightarrow> bool"
  text_channel :: "int \<Rightarrow> int \<Rightarrow> bool"
  member_perms :: "int \<Rightarrow> int \<Rightarrow> (bool \<times> bool) option"
  shuffle :: "int list \<Rightarrow> int list"
  discord :: "nat \<Rightarrow> outbound \<Rightarrow> int option"

definition logged :: "db_write \<Rightarrow> (db \<Rightarrow> db) \<Rightarrow> world \<Rightarrow> world" where
  "logged a f w = \<lparr>wdb = f (wdb w), trace = trace w @ [Write a]\<rparr>"

definition emit :: "env \<Rightarrow> outbound \<Rightarrow> world \<Rightarrow> int option \<times> world" where
  "emit e call w = (discord e (length (trace w)) call, \<lparr>wdb = wdb w, trace = trace w @ [Out call]\<rparr>)"

text \<open>Python truthiness of a nullable integer column and of a nullable text column.\<close>

definition truthy :: "int option \<Rightarrow> bool" where
  "truthy x = (case x of None \<Rightarrow> False | Some v \<Rightarrow> v \<noteq> 0)"

section \<open>Board reveal and leaderboard\<close>

definition try_send_board :: "env \<Rightarrow> int \<Rightarrow> guild_settings \<Rightarrow> bingo \<Rightarrow> world \<Rightarrow> world" where
  "try_send_board e guild gs bingo w =
     (case b_board_image_path bingo of
        None \<Rightarrow> w
      | Some path \<Rightarrow>
          if path = [] then w
          else if \<not> text_channel e guild (board_channel_id gs) then w
          else snd (emit e (SendMsg (board_channel_id gs) (BoardMsg (b_name bingo) path)) w))"

definition update_leaderboard :: "env \<Rightarrow> int \<Rightarrow> guild_settings \<Rightarrow> bingo \<Rightarrow> world \<Rightarrow> world" where
  "update_leaderboard e guild gs bingo w =
     (if \<not> text_channel e guild (announcements_channel_id gs) then w
      else
        let content = LeaderboardMsg (b_name bingo) (leaderboard_counts (wdb w) (b_id bingo))
        in if truthy (b_leaderboard_message_id bingo)
           then (case b_leaderboard_message_id bingo of
                   None \<Rightarrow> w
                 | Some lb_id \<Rightarrow>
                     (case emit e (FetchMsg (announcements_channel_id gs) lb_id) w of
                        (None, w1) \<Rightarrow> w1
                      | (Some _, w1) \<Rightarrow> snd (emit e (EditMsg lb_id content) w1)))
           else (case emit e (SendMsg (announcements_channel_id gs) content) w of
                   (None, w1) \<Rightarrow> w1
                 | (Some mid, w1) \<Rightarrow>
                     logged (SetLeaderboardMessageId (b_id bingo) mid)
                       (set_leaderboard_message_id (b_id bingo) mid) w1))"

section \<open>The background tick: \<open>handle_bingo_state\<close>\<close>

text \<open>The three team loops of \<open>handle_bingo_state\<close>, over the shuffled signups.\<close>

fun assign_one_team :: "int \<Rightarrow> int list \<Rightarrow> world \<Rightarrow> world" where
  "assign_one_team bid [] w = w"
| "assign_one_team bid (uid # uids) w =
     assign_one_team bid uids (logged (SetTeam bid uid 1) (set_team bid uid 1) w)"

fun assign_solo :: "int \<Rightarrow> int \<Rightarrow> int list \<Rightarrow> world \<Rightarrow> world" where
  "assign_solo bid idx [] w = w"
| "assign_solo bid idx (uid # uids) w =
     assign_solo bid (idx + 1) uids (logged (SetTeam bid uid idx) (set_team bid uid idx) w)"

fun assign_chunks :: "int \<Rightarrow> int \<Rightarrow> int \<Rightarrow> int \<Rightarrow> int list \<Rightarrow> world \<Rightarrow> world" where
  "assign_chunks bid team_size team_num i [] w = w"
| "assign_chunks bid team_size team_num i (uid # uids) w =
     assign_chunks bid team_size
       (if (i + 1) mod team_size = 0 then team_num + 1 else team_num) (i + 1) uids
       (logged (SetTeam bid uid team_num) (set_team bid uid team_num) w)"

definition create_teams :: "int \<Rightarrow> int \<Rightarrow> int list \<Rightarrow> world \<Rightarrow> world" where
  "create_teams bid team_size shuffled w =
     (let w1 = logged (ClearTeams bid) (clear_teams bid) w
      in if team_size \<le> 0 then assign_one_team bid shuffled w1
         else if team_size = 1 then assign_solo bid 1 shuffled w1
         else assign_chunks bid team_size 1 0 shuffled w1)"

text \<open>The \<open>bucket\<close> dictionary of the team announcement, read in ascending key order.\<close>

definition team_lines :: "(int \<times> int) list \<Rightarrow> (int \<times> int list) list" where
  "team_lines ts =
     map (\<lambda>tn. (tn, map snd (filter (\<lambda>p. fst p = tn) ts))) (sort (remdups (map fst ts)))"

text \<open>
  The first \<open>if\<close> of \<open>handle_bingo_state\<close>. The flag is \<open>False\<close> when the announcement
  raised, which ends the handler (the tick logs the exception and goes on).
\<close>

definition close_signups ::
  "env \<Rightarrow> int \<Rightarrow> guild_settings \<Rightarrow> bingo \<Rightarrow> world \<Rightarrow> bool \<times> world" where
  "close_signups e guild gs bingo w =
     (let w1 = logged (SetStatus (b_id bingo) SignupClosed) (set_status (b_id bingo) SignupClosed) w;
          shuffled = shuffle e (list_signups (wdb w1) (b_id bingo));
          w2 = create_teams (b_id bingo) (b_team_size bingo) shuffled w1;
          (r, w3) =
            (if text_channel e guild (announcements_channel_id gs)
             then emit e (SendMsg (announcements_channel_id gs)
                    (SignupsClosedMsg (b_name bingo) (team_lines (list_teams (wdb w2) (b_id bingo)))))
                    w2
             else (Some 0, w2))
      in if r = None then (False, w3)
         else (True,
           update_leaderboard e guild gs bingo
             (if b_show_board_when bingo = SignupsClose then try_send_board e guild gs bingo w3
              else w3)))"

definition start_bingo :: "env \<Rightarrow> int \<Rightarrow> guild_settings \<Rightarrow> bingo \<Rightarrow> world \<Rightarrow> world" where
  "start_bingo e guild gs bingo w =
     (let w1 = logged (SetStatus (b_id bingo) Running) (set_status (b_id bingo) Running) w;
          (r, w2) =
            (if text_channel e guild (announcements_channel_id gs)
             then emit e (SendMsg (announcements_channel_id gs) (StartedMsg (b_name bingo))) w1
             else (Some 0, w1))
      in if r = None then w2
         else if b_show_board_when bingo = BingoStart then try_send_board e guild gs bingo w2
         else w2)"

definition handle_bingo_state :: "env \<Rightarrow> int \<Rightarrow> bingo \<Rightarrow> world \<Rightarrow> world" where
  "handle_bingo_state e now bingo w =
     (if \<not> guild_known e (b_guild_id bingo) then w
      else (case get_guild_settings (wdb w) (b_guild_id bingo) of
        None \<Rightarrow> w
      | Some gs \<Rightarrow>
          let (ok, w1) =
                (if b_status bingo = SignupOpen \<and> b_signup_close_utc bingo \<le> now
                 then close_signups e (b_guild_id bingo) gs bingo w
                 else (True, w))
          in if \<not> ok then w1
             else if (b_status bingo = SignupOpen \<or> b_status bingo = SignupClosed)
                     \<and> b_start_utc bingo \<le> now
             then start_bingo e (b_guild_id bingo) gs bingo w1
             else w1))"

definition bingo_tick :: "env \<Rightarrow> int \<Rightarrow> world \<Rightarrow> world" where
  "bingo_tick e now w = foldl (\<lambda>v row. handle_bingo_state e now row v) w (get_due_actions (wdb w))"

section \<open>Reactions: signups and approvals\<close>

record reaction =
  p_user_id :: int
  p_guild_id :: "int option"
  p_message_id :: int
  p_emoji :: emoji

text \<open>\<open>bingo["signup_message_id"] and payload.message_id == int(bingo["signup_message_id"])\<close>.\<close>

definition is_signup_post :: "bingo \<Rightarrow> int \<Rightarrow> bool" where
  "is_signup_post bingo message_id =
     (case b_signup_message_id bingo of
        None \<Rightarrow> False
      | Some m \<Rightarrow> m \<noteq> 0 \<and> message_id = m)"

text \<open>
  \<open>member and (member.guild_permissions.manage_guild or
  member.guild_permissions.administrator)\<close>, where \<open>member\<close> is \<open>None\<close> when neither the
  cache nor the fetch gives it.
\<close>

definition has_capability :: "env \<Rightarrow> int \<Rightarrow> int \<Rightarrow> bool" where
  "has_capability e guild user_id =
     (case member_perms e guild user_id of
        None \<Rightarrow> False
      | Some (manage_guild, administrator) \<Rightarrow> manage_guild \<or> administrator)"

definition approver_allowed :: "env \<Rightarrow> int \<Rightarrow> approvals_mode \<Rightarrow> int \<Rightarrow> bool" where
  "approver_allowed e guild mode user_id =
     (case mode of
        ModeAdmin \<Rightarrow> has_capability e guild user_id
      | ModeNonteammate \<Rightarrow> has_capability e guild user_id
      | ModeNone \<Rightarrow> False)"

text \<open>
  The tail of \<open>on_raw_reaction_add\<close> from \<open>db.add_approval\<close> on: the insertion, the count,
  and the transition with its announcement and leaderboard refresh. A raising
  announcement ends the handler.
\<close>

definition record_approval ::
  "env \<Rightarrow> int \<Rightarrow> int \<Rightarrow> guild_settings \<Rightarrow> submission \<Rightarrow> int \<Rightarrow> world \<Rightarrow> world" where
  "record_approval e now guild gs sub user_id w =
     (let w1 = logged (AddApproval (s_id sub) user_id) (add_approval (s_id sub) user_id now) w;
          current = count_approvals (wdb w1) (s_id sub);
          needed = s_approvals_required sub
      in if needed \<le> current
         then
           let w2 = logged (SetSubmissionStatus (s_id sub) Approved)
                      (set_submission_status (s_id sub) Approved) w1;
               (r, w3) =
                 (if text_channel e guild (announcements_channel_id gs)
                  then emit e (SendMsg (announcements_channel_id gs) (ApprovedMsg (s_message_id sub))) w2
                  else (Some 0, w2))
           in if r = None then w3
              else (case get_active_bingo (wdb w3) guild of
                      None \<Rightarrow> w3
                    | Some bingo \<Rightarrow> update_leaderboard e guild gs bingo w3)
         else w1)"

definition on_raw_reaction_add :: "env \<Rightarrow> int \<Rightarrow> reaction \<Rightarrow> world \<Rightarrow> world" where
  "on_raw_reaction_add e now payload w =
     (if p_user_id payload = bot_user_id e then w
      else if \<not> truthy (p_guild_id payload) then w
      else (case p_guild_id payload of
        None \<Rightarrow> w
      | Some guild \<Rightarrow>
          (if \<not> guild_known e guild then w
           else (case get_guild_settings (wdb w) guild of
             None \<Rightarrow> w
           | Some gs \<Rightarrow>
              (case get_active_bingo (wdb w) guild of
                 None \<Rightarrow> w
               | Some bingo \<Rightarrow>
                   (if is_signup_post bingo (p_message_id payload)
                    then (if p_emoji payload = SIGNUP_EMOJI
                          then logged (AddSignup (b_id bingo) (p_user_id payload))
                                 (add_signup (b_id bingo) (p_user_id payload) now) w
                          else if p_emoji payload = UNSIGN_EMOJI
                          then logged (RemoveSignup (b_id bingo) (p_user_id payload))
                                 (remove_signup (b_id bingo) (p_user_id payload)) w
                          else w)
                    else if p_emoji payload \<noteq> APPROVE_EMOJI then w
                    else (case get_submission_by_message (wdb w) (p_message_id payload) of
                      None \<Rightarrow> w
                    | Some sub \<Rightarrow>
                        (if s_status sub \<noteq> Pending then w
                         else if \<not> approver_allowed e guild (b_approvals_mode bingo)
                                      (p_user_id payload) then w
                         else record_approval e now guild gs sub (p_user_id payload) w))))))))"

definition on_raw_reaction_remove :: "env \<Rightarrow> reaction \<Rightarrow> world \<Rightarrow> world" where
  "on_raw_reaction_remove e payload w =
     (if p_user_id payload = bot_user_id e then w
      else if \<not> truthy (p_guild_id payload) then w
      else (case p_guild_id payload of
        None \<Rightarrow> w
      | Some guild \<Rightarrow>
          (if \<not> guild_known e guild then w
           else (case get_active_bingo (wdb w) guild of
             None \<Rightarrow> w
           | Some bingo \<Rightarrow>
              (if \<not> truthy (b_signup_message_id bingo) then w
               else if is_signup_post bingo (p_message_id payload)
                       \<and> p_emoji payload = SIGNUP_EMOJI
               then logged (RemoveSignup (b_id bingo) (p_user_id payload))
                      (remove_signup (b_id bingo) (p_user_id payload)) w
               else w)))))"

section \<open>Submissions: \<open>handle_submission\<close>\<close>

text \<open>
  What the command brings: the guild, author and channel of the invocation, whether the
  channel is a text channel, the description, the attachment file names, the author's
  reply to the kind question after \<open>strip().lower()\<close> (\<open>None\<close> on timeout), and the
  local path the attachment is saved under.
\<close>

record submit_request =
  sr_guild :: int
  sr_author :: int
  sr_channel :: int
  sr_channel_is_text :: bool
  sr_description :: string
  sr_attachments :: "string list"
  sr_reply :: "string option"
  sr_local_path :: string

definition kind_of_reply :: "string option \<Rightarrow> submission_kind" where
  "kind_of_reply r =
     (case r of
        None \<Rightarrow> Progress
      | Some t \<Rightarrow> if t \<in> set [''full'', ''full_tile'', ''tile'', ''fulltile''] then FullTile
                  else Progress)"

text \<open>A platform call whose exception is not caught: the handler ends when it raises.\<close>

definition attempt :: "env \<Rightarrow> outbound \<Rightarrow> world \<Rightarrow> (int \<Rightarrow> world \<Rightarrow> world) \<Rightarrow> world" where
  "attempt e call w k = (case emit e call w of (None, w1) \<Rightarrow> w1 | (Some m, w1) \<Rightarrow> k m w1)"

text \<open>
  The end of \<open>handle_submission\<close>: \<open>db.create_submission\<close> and, for an auto-approved
  submission, the leaderboard update.
\<close>

definition record_submission ::
  "env \<Rightarrow> int \<Rightarrow> submit_request \<Rightarrow> guild_settings \<Rightarrow> bingo \<Rightarrow> submission_kind \<Rightarrow> int \<Rightarrow>
   submission_status \<Rightarrow> int \<Rightarrow> world \<Rightarrow> world" where
  "record_submission e now req gs bingo kind msg_id st approvals_req w =
     (let (new_id, d) =
            create_submission (b_id bingo) (sr_author req) (sr_description req) kind msg_id
              (sr_local_path req) st approvals_req now (wdb w);
          w1 = logged (CreateSubmission new_id) (\<lambda>_. d) w
      in if st = Approved then update_leaderboard e (sr_guild req) gs bingo w1 else w1)"

text \<open>
  The part of \<open>handle_submission\<close> from the computation of \<open>status\<close> on: the post in the
  submissions channel with its reactions, then the row.
\<close>

definition store_submission ::
  "env \<Rightarrow> int \<Rightarrow> submit_request \<Rightarrow> guild_settings \<Rightarrow> bingo \<Rightarrow> submission_kind \<Rightarrow> world \<Rightarrow> world" where
  "store_submission e now req gs bingo kind w =
     (let st = (if b_approvals_mode bingo = ModeNone then Approved else Pending);
          approvals_req = b_approvals_required bingo
      in attempt e (SendMsg (submissions_channel_id gs)
                      (SubmissionPost (sr_description req) (sr_author req) kind (sr_local_path req))) w
           (\<lambda>msg_id w1.
              attempt e (AddReaction msg_id SIGNUP_EMOJI) w1
                (\<lambda>_ w2.
                   if st = Pending
                   then attempt e (AddReaction msg_id APPROVE_EMOJI) w2
                          (\<lambda>_ w3.
                             attempt e (SendMsg (submissions_channel_id gs)
                                          (AwaitingApprovalMsg (sr_author req))) w3
                               (\<lambda>_ w4.
                                  record_submission e now req gs bingo kind msg_id st
                                    approvals_req w4))
                   else record_submission e now req gs bingo kind msg_id st approvals_req w2)))"

definition handle_submission :: "env \<Rightarrow> int \<Rightarrow> submit_request \<Rightarrow> world \<Rightarrow> world" where
  "handle_submission e now req w =
     (case get_active_bingo (wdb w) (sr_guild req) of
        None \<Rightarrow> snd (emit e (SendMsg (sr_channel req) NoActiveBingoMsg) w)
      | Some bingo \<Rightarrow>
          (case get_guild_settings (wdb w) (sr_guild req) of
             None \<Rightarrow> snd (emit e (SendMsg (sr_channel req) NotConfiguredMsg) w)
           | Some gs \<Rightarrow>
               if sr_channel_is_text req \<and> sr_channel req \<noteq> submissions_channel_id gs
               then snd (emit e (SendMsg (sr_channel req)
                                   (WrongChannelMsg (submissions_channel_id gs))) w)
               else if sr_attachments req = []
               then snd (emit e (SendMsg (sr_channel req) AttachImageMsg) w)
               else attempt e (SendMsg (sr_channel req) KindQuestionMsg) w
                      (\<lambda>_ w1.
                         attempt e (SaveAttachment (sr_local_path req)) w1
                           (\<lambda>_ w2.
                              if \<not> text_channel e (sr_guild req) (submissions_channel_id gs)
                              then snd (emit e (SendMsg (sr_channel req) MisconfiguredMsg) w2)
                              else store_submission e now req gs bingo
                                     (kind_of_reply (sr_reply req)) w2))))"

section \<open>Observations on the database, and example data\<close>

text \<open>
  The team rows of one bingo, the members of one of its teams in row order, and the
  absence of a team row for a user: what the statements below read from a database.
\<close>

definition team_rows :: "db \<Rightarrow> int \<Rightarrow> team list" where
  "team_rows d bingo_id = filter (\<lambda>t. t_bingo_id t = bingo_id) (teams d)"

definition team_members :: "db \<Rightarrow> int \<Rightarrow> int \<Rightarrow> int list" where
  "team_members d bingo_id k = map t_user_id (filter (\<lambda>t. t_team_number t = k) (team_rows d bingo_id))"

definition no_team_row :: "db \<Rightarrow> int \<Rightarrow> int \<Rightarrow> bool" where
  "no_team_row d bid u = (\<not> list_ex (\<lambda>t. t_bingo_id t = bid \<and> t_user_id t = u) (teams d))"

definition demo_env :: env where
  "demo_env =
     \<lparr>bot_user_id = 999,
      guild_known = (\<lambda>g. g = 1),
      text_channel = (\<lambda>g c. True),
      member_perms = (\<lambda>g u. if u = 100 \<or> u = 101 then Some (True, False)
                            else if u = 200 then Some (False, False) else None),
      shuffle = (\<lambda>xs. xs),
      discord = (\<lambda>n call. Some (5000 + int n))\<rparr>"

definition demo_gs :: guild_settings where
  "demo_gs = \<lparr>gs_guild_id = 1, signup_channel_id = 10, submissions_channel_id = 20,
     announcements_channel_id = 30, board_channel_id = 40\<rparr>"

definition demo_bingo :: bingo where
  "demo_bingo =
     \<lparr>b_id = 1, b_guild_id = 1, b_name = ''demo'', b_game_mode = ''custom'', b_team_size = 2,
      b_team_mode = ''random'', b_notify_role_id = None, b_start_utc = 100,
      b_end_utc = Some 200, b_signup_close_utc = 50, b_show_board_when = SignupsClose,
      b_approvals_mode = ModeAdmin, b_approvals_required = 2, b_status = SignupOpen,
      b_signup_message_id = Some 500, b_leaderboard_message_id = None,
      b_board_image_path = Some ''board.png'', b_created_by_user_id = 100,
      b_created_at_utc = 0\<rparr>"

definition demo_pending :: submission where
  "demo_pending =
     \<lparr>s_id = 1, s_bingo_id = 1, s_user_id = 11, s_description = ''tile'', s_kind = FullTile,
      s_created_at_utc = 60, s_message_id = 600, s_attachment_path = ''a.png'',
      s_status = Pending, s_approvals_required = 2\<rparr>"

definition demo_approved :: submission where
  "demo_approved =
     \<lparr>s_id = 2, s_bingo_id = 1, s_user_id = 12, s_description = ''tile'', s_kind = FullTile,
      s_created_at_utc = 61, s_message_id = 601, s_attachment_path = ''b.png'',
      s_status = Approved, s_approvals_required = 1\<rparr>"

definition demo_db :: db where
  "demo_db =
     \<lparr>guild_settings_tbl = [demo_gs], bingos = [demo_bingo], bingos_seq = 1,
      signups = [\<lparr>su_bingo_id = 1, su_user_id = 11, su_joined_at_utc = 1\<rparr>,
                 \<lparr>su_bingo_id = 1, su_user_id = 12, su_joined_at_utc = 2\<rparr>,
                 \<lparr>su_bingo_id = 1, su_user_id = 13, su_joined_at_utc = 3\<rparr>],
      teams = [\<lparr>t_bingo_id = 1, t_team_number = 9, t_user_id = 11\<rparr>,
               \<lparr>t_bingo_id = 2, t_team_number = 4, t_user_id = 12\<rparr>],
      submissions = [demo_pending, demo_approved], submissions_seq = 2,
      approvals = [\<lparr>a_submission_id = 2, a_user_id = 100, a_approved_at_utc = 62\<rparr>]\<rparr>"

definition demo_world :: world where
  "demo_world = \<lparr>wdb = demo_db, trace = []\<rparr>"

definition approve_by :: "int \<Rightarrow> int \<Rightarrow> reaction" where
  "approve_by user_id message_id =
     \<lparr>p_user_id = user_id, p_guild_id = Some 1, p_message_id = message_id,
      p_emoji = APPROVE_EMOJI\<rparr>"

definition team_row :: "int \<Rightarrow> int \<Rightarrow> int \<Rightarrow> team" where
  "team_row bid k u = \<lparr>t_bingo_id = bid, t_team_number = k, t_user_id = u\<rparr>"

definition approvers :: "db \<Rightarrow> int \<Rightarrow> int list" where
  "approvers d submission_id =
     map a_user_id (filter (\<lambda>a. a_submission_id a = submission_id) (approvals d))"

definition approvals_pk :: "db \<Rightarrow> bool" where
  "approvals_pk d = distinct (map (\<lambda>a. (a_submission_id a, a_user_id a)) (approvals d))"

definition submission_status_of :: "db \<Rightarrow> int \<Rightarrow> submission_status option" where
  "submission_status_of d message_id = map_option s_status (get_submission_by_message d message_id)"

definition new_actions :: "world \<Rightarrow> world \<Rightarrow> action list" where
  "new_actions w w' = drop (length (trace w)) (trace w')"

definition may_write :: "bingo_status \<Rightarrow> bingo_status \<Rightarrow> bool" where
  "may_write scanned st =
     (scanned = SignupOpen \<and> (st = SignupClosed \<or> st = Running)
      \<or> scanned = SignupClosed \<and> st = Running)"

definition status_step :: "int \<Rightarrow> bingo_status \<Rightarrow> bingo \<Rightarrow> bingo \<Rightarrow> bool" where
  "status_step bid scanned b b' =
     (b_id b' = b_id b \<and> b_guild_id b' = b_guild_id b
      \<and> (b_status b' = b_status b \<or> b_id b = bid \<and> may_write scanned (b_status b')))"

fun engine_may :: "bingo \<Rightarrow> action \<Rightarrow> bool" where
  "engine_may s (Write (SetStatus i st)) = (i = b_id s \<and> may_write (b_status s) st)"
| "engine_may s (Write (ClearTeams i)) = (i = b_id s \<and> b_status s = SignupOpen)"
| "engine_may s (Write (SetTeam i u k)) = (i = b_id s \<and> b_status s = SignupOpen)"
| "engine_may s (Write (SetLeaderboardMessageId i m)) = (i = b_id s \<and> b_status s = SignupOpen)"
| "engine_may s (Write _) = False"
| "engine_may s (Out (SendMsg c (SignupsClosedMsg n ls))) = (b_status s = SignupOpen)"
| "engine_may s (Out (SendMsg c (LeaderboardMsg n cs))) = (b_status s = SignupOpen)"
| "engine_may s (Out (SendMsg c (StartedMsg n))) =
     (b_status s = SignupOpen \<or> b_status s = SignupClosed)"
| "engine_may s (Out (SendMsg c (BoardMsg n p))) =
     (b_status s = SignupOpen \<and> b_show_board_when s = SignupsClose
      \<or> (b_status s = SignupOpen \<or> b_status s = SignupClosed) \<and> b_show_board_when s = BingoStart)"
| "engine_may s (Out (SendMsg c _)) = False"
| "engine_may s (Out (FetchMsg c m)) = (b_status s = SignupOpen)"
| "engine_may s (Out (EditMsg m (LeaderboardMsg n cs))) = (b_status s = SignupOpen)"
| "engine_may s (Out _) = False"

definition effect_ok :: "(action \<Rightarrow> bool) \<Rightarrow> (bingo \<Rightarrow> bingo \<Rightarrow> bool) \<Rightarrow> world \<Rightarrow> world \<Rightarrow> bool" where
  "effect_ok A R w w' =
     (trace w' = trace w @ new_actions w w' \<and> list_all A (new_actions w w')
      \<and> list_all2 R (bingos (wdb w)) (bingos (wdb w')))"

definition engine_ok :: "bingo \<Rightarrow> world \<Rightarrow> world \<Rightarrow> bool" where
  "engine_ok s w w' = effect_ok (engine_may s) (status_step (b_id s) (b_status s)) w w'"

fun close_effect :: "action \<Rightarrow> bool" where
  "close_effect (Write (SetStatus i st)) = (st = SignupClosed)"
| "close_effect (Write (ClearTeams i)) = True"
| "close_effect (Write (SetTeam i u k)) = True"
| "close_effect (Write (SetLeaderboardMessageId i m)) = True"
| "close_effect (Write _) = False"
| "close_effect (Out (SendMsg c (SignupsClosedMsg n ls))) = True"
| "close_effect (Out (SendMsg c (LeaderboardMsg n cs))) = True"
| "close_effect (Out (SendMsg c _)) = False"
| "close_effect (Out (FetchMsg c m)) = True"
| "close_effect (Out (EditMsg m c)) = True"
| "close_effect (Out _) = False"

text \<open>The forward order of the lifecycle on one row: same event, status kept or advanced.\<close>

definition lifecycle_step :: "bingo \<Rightarrow> bingo \<Rightarrow> bool" where
  "lifecycle_step b b' =
     (b_id b' = b_id b \<and> b_guild_id b' = b_guild_id b
      \<and> (b_status b' = b_status b \<or> may_write (b_status b) (b_status b')))"

text \<open>
  The inbound events of the system, and a run of the handlers over a sequence of them. The
  setup wizard, which creates events, is not part of it.
\<close>

datatype event =
    Tick int
  | ReactionAdd int reaction
  | ReactionRemove reaction
  | Submit int submit_request

fun step :: "env \<Rightarrow> event \<Rightarrow> world \<Rightarrow> world" where
  "step e (Tick now) w = bingo_tick e now w"
| "step e (ReactionAdd now payload) w = on_raw_reaction_add e now payload w"
| "step e (ReactionRemove payload) w = on_raw_reaction_remove e payload w"
| "step e (Submit now req) w = handle_submission e now req w"

definition run :: "env \<Rightarrow> event list \<Rightarrow> world \<Rightarrow> world" where
  "run e evs w = foldl (\<lambda>v ev. step e ev v) w evs"

text \<open>The condition under which \<open>handle_bingo_state\<close> enters its first \<open>if\<close>.\<close>

definition closes :: "env \<Rightarrow> int \<Rightarrow> bingo \<Rightarrow> world \<Rightarrow> bool" where
  "closes e now s w =
     (guild_known e (b_guild_id s) \<and> get_guild_settings (wdb w) (b_guild_id s) \<noteq> None
      \<and> b_status s = SignupOpen \<and> b_signup_close_utc s \<le> now)"

text \<open>
  The rows of a scan are fresh for a database when every row of an event in the scan still
  has the status the scan read.
\<close>

definition fresh_rows :: "bingo list \<Rightarrow> db \<Rightarrow> bool" where
  "fresh_rows rs d = (\<forall>r\<in>set rs. \<forall>b\<in>set (bingos d). b_id b = b_id r \<longrightarrow> b_status b = b_status r)"

text \<open>A status write of the engine: only \<open>signup_closed\<close> and \<open>running\<close> are written.\<close>

fun status_write_ok :: "action \<Rightarrow> bool" where
  "status_write_ok (Write (SetStatus i st)) = (st = SignupClosed \<or> st = Running)"
| "status_write_ok _ = True"

fun no_status_write :: "action \<Rightarrow> bool" where
  "no_status_write (Write (SetStatus i st)) = False"
| "no_status_write _ = True"

definition quiet_step :: "bingo \<Rightarrow> bingo \<Rightarrow> bool" where
  "quiet_step b b' =
     (b_id b' = b_id b \<and> b_guild_id b' = b_guild_id b \<and> b_status b' = b_status b)"

definition quiet_ok :: "world \<Rightarrow> world \<Rightarrow> bool" where
  "quiet_ok w w' = effect_ok no_status_write quiet_step w w'"

definition bingos_pk :: "db \<Rightarrow> bool" where
  "bingos_pk d = distinct (map b_id (bingos d))"

section \<open>Properties\<close>

lemma team_row_simps [simp]:
  "t_bingo_id (team_row bid k u) = bid" "t_team_number (team_row bid k u) = k"
  "t_user_id (team_row bid k u) = u"
  by (simp_all add: team_row_def)

lemma set_team_fresh:
  "no_team_row (wdb w) bid u \<Longrightarrow>
   teams (wdb (logged a (set_team bid u k) w)) = teams (wdb w) @ [team_row bid k u]"
  by (simp add: logged_def set_team_def no_team_row_def team_row_def)

lemma no_team_row_set_team:
  "no_team_row (wdb w) bid u \<Longrightarrow>
   no_team_row (wdb (logged a (set_team bid u k) w)) bid v = (no_team_row (wdb w) bid v \<and> v \<noteq> u)"
  by (auto simp: logged_def set_team_def no_team_row_def)

lemma div_step:
  fixes ts i :: int
  assumes "0 < ts"
  shows "(i + 1) div ts = (if (i + 1) mod ts = 0 then i div ts + 1 else i div ts)"
proof (cases "i mod ts + 1 = ts")
  case True
  have e: "ts * (i div ts) + i mod ts = i" by (rule mult_div_mod_eq)
  have "ts * (i div ts + 1) = ts * (i div ts) + ts" by (simp add: distrib_left)
  with e True have "i + 1 = ts * (i div ts + 1) + 0" by linarith
  then have "(i + 1) div ts = i div ts + 1" "(i + 1) mod ts = 0"
    using assms int_div_pos_eq[of "i + 1" ts "i div ts + 1" 0]
      int_mod_pos_eq[of "i + 1" ts "i div ts + 1" 0] by simp_all
  then show ?thesis by simp
next
  case False
  have b: "0 \<le> i mod ts" "i mod ts < ts" using assms by simp_all
  have e: "ts * (i div ts) + i mod ts = i" by (rule mult_div_mod_eq)
  then have "i + 1 = ts * (i div ts) + (i mod ts + 1)" by linarith
  moreover have "0 \<le> i mod ts + 1" "i mod ts + 1 < ts" using b False by simp_all
  ultimately have "(i + 1) div ts = i div ts" "(i + 1) mod ts = i mod ts + 1"
    using int_div_pos_eq[of "i + 1" ts "i div ts" "i mod ts + 1"]
      int_mod_pos_eq[of "i + 1" ts "i div ts" "i mod ts + 1"] by simp_all
  then show ?thesis using b by simp
qed

lemma assign_chunks_teams:
  "distinct us \<Longrightarrow> \<forall>u\<in>set us. no_team_row (wdb w) bid u \<Longrightarrow> 0 < ts \<Longrightarrow> tn = int n div ts + 1 \<Longrightarrow>
   teams (wdb (assign_chunks bid ts tn (int n) us w)) =
     teams (wdb w) @ map (\<lambda>(j, u). team_row bid (int j div ts + 1) u) (enumerate n us)"
proof (induction us arbitrary: tn n w)
  case Nil
  then show ?case by simp
next
  case (Cons u us)
  let ?tn' = "if (int n + 1) mod ts = 0 then tn + 1 else tn"
  let ?w' = "logged (SetTeam bid u tn) (set_team bid u tn) w"
  have n1: "int (Suc n) = int n + 1" by simp
  have step: "?tn' = int (Suc n) div ts + 1"
    using div_step[OF \<open>0 < ts\<close>, of "int n"] Cons.prems(4) unfolding n1 by simp
  have fresh: "\<forall>v\<in>set us. no_team_row (wdb ?w') bid v"
    using Cons.prems(1,2) by (auto simp: no_team_row_set_team)
  have d: "distinct us" using Cons.prems(1) by simp
  have ih: "teams (wdb (assign_chunks bid ts ?tn' (int (Suc n)) us ?w')) =
     teams (wdb ?w') @ map (\<lambda>(j, u). team_row bid (int j div ts + 1) u) (enumerate (Suc n) us)"
    by (rule Cons.IH[OF d fresh \<open>0 < ts\<close> step])
  have unf: "assign_chunks bid ts tn (int n) (u # us) w =
     assign_chunks bid ts ?tn' (int (Suc n)) us ?w'"
    unfolding n1 by (rule assign_chunks.simps(2))
  have t: "teams (wdb ?w') = teams (wdb w) @ [team_row bid tn u]"
    using Cons.prems(2) by (simp add: set_team_fresh)
  show ?case
    unfolding unf ih t using Cons.prems(4) by simp
qed

lemma assign_solo_teams:
  "distinct us \<Longrightarrow> \<forall>u\<in>set us. no_team_row (wdb w) bid u \<Longrightarrow>
   teams (wdb (assign_solo bid (int n + 1) us w)) =
     teams (wdb w) @ map (\<lambda>(j, u). team_row bid (int j + 1) u) (enumerate n us)"
proof (induction us arbitrary: n w)
  case Nil
  then show ?case by simp
next
  case (Cons u us)
  let ?w' = "logged (SetTeam bid u (int n + 1)) (set_team bid u (int n + 1)) w"
  have fresh: "\<forall>v\<in>set us. no_team_row (wdb ?w') bid v"
    using Cons.prems(1,2) by (auto simp: no_team_row_set_team)
  have d: "distinct us" using Cons.prems(1) by simp
  have "teams (wdb (assign_solo bid (int (Suc n) + 1) us ?w')) =
     teams (wdb ?w') @ map (\<lambda>(j, u). team_row bid (int j + 1) u) (enumerate (Suc n) us)"
    by (rule Cons.IH[OF d fresh])
  then show ?case
    using Cons.prems(2) by (simp add: set_team_fresh add.commute)
qed

lemma assign_one_team_teams:
  "distinct us \<Longrightarrow> \<forall>u\<in>set us. no_team_row (wdb w) bid u \<Longrightarrow>
   teams (wdb (assign_one_team bid us w)) = teams (wdb w) @ map (team_row bid 1) us"
proof (induction us arbitrary: w)
  case Nil
  then show ?case by simp
next
  case (Cons u us)
  let ?w' = "logged (SetTeam bid u 1) (set_team bid u 1) w"
  have fresh: "\<forall>v\<in>set us. no_team_row (wdb ?w') bid v"
    using Cons.prems(1,2) by (auto simp: no_team_row_set_team)
  have d: "distinct us" using Cons.prems(1) by simp
  show ?case
    using Cons.IH[OF d fresh] Cons.prems(2) by (simp add: set_team_fresh)
qed


lemma clear_teams_no_row: "no_team_row (wdb (logged a (clear_teams bid) w)) bid u"
  by (simp add: logged_def clear_teams_def no_team_row_def list_ex_iff)

lemma team_rows_clear_append:
  "\<forall>t\<in>set new. t_bingo_id t = bid \<Longrightarrow>
   team_rows (d\<lparr>teams := teams (wdb (logged a (clear_teams bid) w)) @ new\<rparr>) bid = new"
  by (simp add: team_rows_def logged_def clear_teams_def filter_id_conv)

lemma team_rows_cong: "teams d = teams d' \<Longrightarrow> team_rows d bid = team_rows d' bid"
  by (simp add: team_rows_def)

lemma team_rows_after_clear:
  assumes "teams d = teams (wdb (logged a (clear_teams bid) w)) @ new"
      and "\<forall>t\<in>set new. t_bingo_id t = bid"
  shows "team_rows d bid = new"
  using assms by (simp add: team_rows_def logged_def clear_teams_def filter_id_conv)

lemma create_teams_chunks_rows:
  assumes "2 \<le> ts" "distinct us"
  shows "team_rows (wdb (create_teams bid ts us w)) bid =
           map (\<lambda>(j, u). team_row bid (int j div ts + 1) u) (enumerate 0 us)"
proof -
  let ?w1 = "logged (ClearTeams bid) (clear_teams bid) w"
  have "teams (wdb (assign_chunks bid ts 1 (int 0) us ?w1)) =
     teams (wdb ?w1) @ map (\<lambda>(j, u). team_row bid (int j div ts + 1) u) (enumerate 0 us)"
    using assms by (intro assign_chunks_teams) (simp_all add: clear_teams_no_row)
  moreover have "create_teams bid ts us w = assign_chunks bid ts 1 (int 0) us ?w1"
    using assms(1) by (simp add: create_teams_def)
  ultimately show ?thesis
    by (intro team_rows_after_clear[where a = "ClearTeams bid" and w = w]) auto
qed

lemma create_teams_solo_rows:
  assumes "distinct us"
  shows "team_rows (wdb (create_teams bid 1 us w)) bid =
           map (\<lambda>(j, u). team_row bid (int j + 1) u) (enumerate 0 us)"
proof -
  let ?w1 = "logged (ClearTeams bid) (clear_teams bid) w"
  have "teams (wdb (assign_solo bid (int 0 + 1) us ?w1)) =
     teams (wdb ?w1) @ map (\<lambda>(j, u). team_row bid (int j + 1) u) (enumerate 0 us)"
    using assms by (intro assign_solo_teams) (simp_all add: clear_teams_no_row)
  moreover have "create_teams bid 1 us w = assign_solo bid (int 0 + 1) us ?w1"
    by (simp add: create_teams_def)
  ultimately show ?thesis
    by (intro team_rows_after_clear[where a = "ClearTeams bid" and w = w]) auto
qed

lemma create_teams_one_rows:
  assumes "ts \<le> 0" "distinct us"
  shows "team_rows (wdb (create_teams bid ts us w)) bid = map (team_row bid 1) us"
proof -
  let ?w1 = "logged (ClearTeams bid) (clear_teams bid) w"
  have "teams (wdb (assign_one_team bid us ?w1)) = teams (wdb ?w1) @ map (team_row bid 1) us"
    using assms by (intro assign_one_team_teams) (simp_all add: clear_teams_no_row)
  moreover have "create_teams bid ts us w = assign_one_team bid us ?w1"
    using assms(1) by (simp add: create_teams_def)
  ultimately show ?thesis
    by (intro team_rows_after_clear[where a = "ClearTeams bid" and w = w]) auto
qed

text \<open>Lookup of a participant in rows built from a duplicate-free list.\<close>

lemma find_enumerate_row:
  assumes "distinct us" "i < length us"
      and "\<And>j u. t_user_id (f (j, u)) = u"
  shows "find (\<lambda>t. t_user_id t = us ! i) (map f (enumerate n us)) = Some (f (n + i, us ! i))"
  using assms(1,2)
proof (induction us arbitrary: n i)
  case Nil
  then show ?case by simp
next
  case (Cons u us)
  show ?case
  proof (cases i)
    case 0
    then show ?thesis by (simp add: assms(3))
  next
    case (Suc k)
    then have "us ! k \<noteq> u" "k < length us" "distinct us"
      using Cons.prems by auto
    then show ?thesis
      using Cons.IH[of k "Suc n"] Suc by (simp add: assms(3))
  qed
qed

lemma get_team_rows:
  "get_team d bid u = map_option t_team_number (find (\<lambda>t. t_user_id t = u) (team_rows d bid))"
proof -
  have "find (\<lambda>t. t_bingo_id t = bid \<and> t_user_id t = u) xs =
        find (\<lambda>t. t_user_id t = u) (filter (\<lambda>t. t_bingo_id t = bid) xs)"
    for xs :: "team list"
    by (induction xs) auto
  then show ?thesis by (simp add: get_team_def team_rows_def)
qed


text \<open>Arithmetic of the chunk numbers.\<close>

lemma div_bounds:
  fixes ts a :: int
  assumes "0 < ts"
  shows "ts * (a div ts) \<le> a" "a < ts * (a div ts) + ts"
proof -
  have e: "ts * (a div ts) + a mod ts = a" by (rule mult_div_mod_eq)
  have b: "0 \<le> a mod ts" "a mod ts < ts" using assms by simp_all
  show "ts * (a div ts) \<le> a" using e b by linarith
  show "a < ts * (a div ts) + ts" using e b by linarith
qed

lemma chunk_number_set:
  fixes ts :: int
  assumes "0 < ts"
  shows "(\<lambda>j. int j div ts + 1) ` {0..<N} = {1..(int N + ts - 1) div ts}"
proof (intro equalityI subsetI)
  fix k assume "k \<in> (\<lambda>j. int j div ts + 1) ` {0..<N}"
  then obtain j where j: "j < N" "k = int j div ts + 1" by auto
  have "0 \<le> int j div ts" using assms by (simp add: pos_imp_zdiv_nonneg_iff)
  moreover have "int j div ts \<le> (int N - 1) div ts"
    using j(1) assms by (intro zdiv_mono1) auto
  moreover have "(int N + ts - 1) div ts = (int N - 1) div ts + 1"
    using assms div_add_self2[of ts "int N - 1"] by (simp add: algebra_simps)
  ultimately show "k \<in> {1..(int N + ts - 1) div ts}" using j(2) by simp
next
  fix k assume "k \<in> {1..(int N + ts - 1) div ts}"
  then have k: "1 \<le> k" "k \<le> (int N + ts - 1) div ts" by auto
  have c: "(int N + ts - 1) div ts = (int N - 1) div ts + 1"
    using assms div_add_self2[of ts "int N - 1"] by (simp add: algebra_simps)
  let ?j = "nat ((k - 1) * ts)"
  have nn: "0 \<le> (k - 1) * ts" using k(1) assms by simp
  have "(k - 1) * ts \<le> ((int N - 1) div ts) * ts"
    using k(2) c assms by (intro mult_right_mono) auto
  also have "\<dots> \<le> int N - 1"
    using div_bounds(1)[OF assms, of "int N - 1"] by (simp add: mult.commute)
  finally have "?j < N" using nn by linarith
  moreover have "int ?j div ts + 1 = k" using nn assms by simp
  ultimately show "k \<in> (\<lambda>j. int j div ts + 1) ` {0..<N}" by force
qed

lemma ceil_bounds:
  fixes ts :: int
  assumes "0 < ts"
  shows "((n + ts - 1) div ts - 1) * ts < n \<and> n \<le> ((n + ts - 1) div ts) * ts"
proof -
  have c: "(n + ts - 1) div ts = (n - 1) div ts + 1"
    using assms div_add_self2[of ts "n - 1"] by (simp add: algebra_simps)
  have m: "((n - 1) div ts + 1) * ts = ts * ((n - 1) div ts) + ts"
    "((n - 1) div ts + 1 - 1) * ts = ts * ((n - 1) div ts)" by (simp_all add: algebra_simps)
  show ?thesis
    unfolding c m using div_bounds[OF assms, of "n - 1"] by linarith
qed

lemma chunk_members_card:
  fixes ts :: int
  assumes "0 < ts" "1 \<le> k"
  shows "{j. j < N \<and> int j div ts + 1 = k} = {nat ((k - 1) * ts) ..< min N (nat (k * ts))}"
proof (intro equalityI subsetI)
  fix j assume "j \<in> {j. j < N \<and> int j div ts + 1 = k}"
  then have j: "j < N" "int j div ts = k - 1" by auto
  have m: "(k - 1) * ts = ts * (k - 1)" "k * ts = ts * (k - 1) + ts"
    by (simp_all add: algebra_simps)
  have "(k - 1) * ts \<le> int j" "int j < k * ts"
    using div_bounds[OF assms(1), of "int j"] unfolding j(2) m by linarith+
  then show "j \<in> {nat ((k - 1) * ts) ..< min N (nat (k * ts))}" using j(1) by auto
next
  fix j assume "j \<in> {nat ((k - 1) * ts) ..< min N (nat (k * ts))}"
  then have j: "nat ((k - 1) * ts) \<le> j" "j < N" "j < nat (k * ts)" by auto
  have nn: "0 \<le> (k - 1) * ts" using assms by simp
  have lo: "(k - 1) * ts \<le> int j" using j(1) nn by linarith
  have hi: "int j < k * ts" using j(3) by linarith
  have "int j = ts * (k - 1) + (int j - (k - 1) * ts)" by (simp add: algebra_simps)
  moreover have "0 \<le> int j - (k - 1) * ts" using lo by simp
  moreover have "int j - (k - 1) * ts < ts" using hi by (simp add: algebra_simps)
  ultimately have "int j div ts = k - 1"
    using assms(1) int_div_pos_eq[of "int j" ts "k - 1" "int j - (k - 1) * ts"] by simp
  then show "j \<in> {j. j < N \<and> int j div ts + 1 = k}" using j(2) by simp
qed


lemma length_filter_enumerate:
  "length (filter (\<lambda>t. P (t_team_number t)) (map (\<lambda>(j, u). team_row bid (g j) u) (enumerate n us))) =
   length (filter (\<lambda>j. P (g j)) [n..<n + length us])"
proof (induction us arbitrary: n)
  case Nil
  then show ?case by simp
next
  case (Cons u us)
  have "[n..<n + length (u # us)] = n # [Suc n..<Suc n + length us]"
    by (simp add: upt_rec)
  then show ?case using Cons.IH[of "Suc n"] by simp
qed

lemma chunk_team_size:
  fixes ts :: int
  assumes "0 < ts" "1 \<le> k"
  shows "length (filter (\<lambda>t. t_team_number t = k)
            (map (\<lambda>(j, u). team_row bid (int j div ts + 1) u) (enumerate 0 us))) =
         min (length us) (nat (k * ts)) - nat ((k - 1) * ts)"
proof -
  have "length (filter (\<lambda>t. t_team_number t = k)
            (map (\<lambda>(j, u). team_row bid (int j div ts + 1) u) (enumerate 0 us))) =
        length (filter (\<lambda>j. int j div ts + 1 = k) [0..<0 + length us])"
    by (rule length_filter_enumerate[where P = "\<lambda>x. x = k"])
  also have "\<dots> = card ({j. int j div ts + 1 = k} \<inter> set [0..<length us])"
    by (simp add: distinct_length_filter)
  also have "{j. int j div ts + 1 = k} \<inter> set [0..<length us] =
             {j. j < length us \<and> int j div ts + 1 = k}" by auto
  also have "\<dots> = {nat ((k - 1) * ts) ..< min (length us) (nat (k * ts))}"
    by (rule chunk_members_card[OF assms])
  finally show ?thesis by simp
qed

text \<open>
  Claim C4. For a duplicate-free participant list of size \<open>N\<close> (the signups of one bingo,
  which the primary key keeps duplicate-free) and \<open>team_size \<ge> 2\<close>, the team loop of
  \<open>handle_bingo_state\<close> leaves, for that bingo, exactly one team row per participant, in
  shuffle order; the team numbers are exactly \<open>1..n_teams\<close> where \<open>n_teams\<close> is the
  ceiling of \<open>N / team_size\<close>; the participant at index \<open>i\<close> is in team
  \<open>i div team_size + 1\<close>; every team before the last has \<open>team_size\<close> members and the
  last one has the remaining \<open>N - (n_teams - 1) * team_size\<close>.
\<close>

theorem team_assignment_chunks:
  assumes "2 \<le> team_size" and "distinct participants"
  shows "let d = wdb (create_teams bid team_size participants w);
             N = int (length participants);
             n_teams = (N + team_size - 1) div team_size
         in (n_teams - 1) * team_size < N \<and> N \<le> n_teams * team_size
          \<and> t_team_number ` set (team_rows d bid) = {1..n_teams}
          \<and> map t_user_id (team_rows d bid) = participants
          \<and> (\<forall>i<length participants.
                get_team d bid (participants ! i) = Some (int i div team_size + 1))
          \<and> (\<forall>k. 1 \<le> k \<and> k < n_teams \<longrightarrow> int (length (team_members d bid k)) = team_size)
          \<and> (participants \<noteq> [] \<longrightarrow>
                int (length (team_members d bid n_teams)) = N - (n_teams - 1) * team_size)"
proof -
  define d where "d = wdb (create_teams bid team_size participants w)"
  define N where "N = int (length participants)"
  define n_teams where "n_teams = (N + team_size - 1) div team_size"
  have pos: "0 < team_size" using assms(1) by simp
  have rows: "team_rows d bid =
      map (\<lambda>(j, u). team_row bid (int j div team_size + 1) u) (enumerate 0 participants)"
    unfolding d_def by (rule create_teams_chunks_rows[OF assms])
  have bounds: "(n_teams - 1) * team_size < N" "N \<le> n_teams * team_size"
    unfolding n_teams_def using ceil_bounds[OF pos, of N] by simp_all
  have users: "map t_user_id (team_rows d bid) = participants"
  proof -
    have "map t_user_id (team_rows d bid) = map snd (enumerate 0 participants)"
      unfolding rows by (simp add: case_prod_beta comp_def)
    then show ?thesis by simp
  qed
  have numbers: "t_team_number ` set (team_rows d bid) = {1..n_teams}"
  proof -
    have "map t_team_number (team_rows d bid) =
          map ((\<lambda>j. int j div team_size + 1) \<circ> fst) (enumerate 0 participants)"
      unfolding rows by (simp add: case_prod_beta comp_def)
    also have "\<dots> = map (\<lambda>j. int j div team_size + 1) (map fst (enumerate 0 participants))"
      by (simp only: map_map)
    also have "\<dots> = map (\<lambda>j. int j div team_size + 1) [0..<length participants]"
      by simp
    finally have "set (map t_team_number (team_rows d bid)) =
               (\<lambda>j. int j div team_size + 1) ` {0..<length participants}"
      by simp
    then show ?thesis
      unfolding n_teams_def N_def using chunk_number_set[OF pos, of "length participants"]
      by simp
  qed
  have lookup: "\<forall>i<length participants.
      get_team d bid (participants ! i) = Some (int i div team_size + 1)"
  proof (intro allI impI)
    fix i assume i: "i < length participants"
    have "find (\<lambda>t. t_user_id t = participants ! i) (team_rows d bid) =
          Some (team_row bid (int (0 + i) div team_size + 1) (participants ! i))"
      unfolding rows
      using find_enumerate_row[OF assms(2) i,
              of "\<lambda>(j, u). team_row bid (int j div team_size + 1) u" 0]
      by simp
    then show "get_team d bid (participants ! i) = Some (int i div team_size + 1)"
      by (simp add: get_team_rows)
  qed
  have size: "length (team_members d bid k) =
      min (length participants) (nat (k * team_size)) - nat ((k - 1) * team_size)"
    if "1 \<le> k" for k
    unfolding team_members_def rows using chunk_team_size[OF pos that] by simp
  have full: "\<forall>k. 1 \<le> k \<and> k < n_teams \<longrightarrow> int (length (team_members d bid k)) = team_size"
  proof (intro allI impI)
    fix k assume k: "1 \<le> k \<and> k < n_teams"
    then have "k * team_size \<le> (n_teams - 1) * team_size"
      using pos by (intro mult_right_mono) auto
    then have lt: "k * team_size < N" using bounds(1) by linarith
    have nn: "0 \<le> (k - 1) * team_size" using k pos by simp
    have e: "k * team_size = (k - 1) * team_size + team_size" by (simp add: algebra_simps)
    have "min (length participants) (nat (k * team_size)) = nat (k * team_size)"
      using lt unfolding N_def by linarith
    then have "int (length (team_members d bid k)) =
               int (nat (k * team_size) - nat ((k - 1) * team_size))"
      using size k by simp
    also have "\<dots> = team_size" using nn e pos by linarith
    finally show "int (length (team_members d bid k)) = team_size" .
  qed
  have last: "participants \<noteq> [] \<longrightarrow>
      int (length (team_members d bid n_teams)) = N - (n_teams - 1) * team_size"
  proof
    assume ne: "participants \<noteq> []"
    then have Npos: "0 < N" unfolding N_def by simp
    have k1: "1 \<le> n_teams"
    proof (rule ccontr)
      assume "\<not> 1 \<le> n_teams"
      then have "n_teams \<le> 0" by simp
      then have "n_teams * team_size \<le> 0" using pos by (simp add: mult_le_0_iff)
      then show False using bounds(2) Npos by linarith
    qed
    have nn: "0 \<le> (n_teams - 1) * team_size" using k1 pos by simp
    have "min (length participants) (nat (n_teams * team_size)) = length participants"
      using bounds(2) unfolding N_def by linarith
    then have "int (length (team_members d bid n_teams)) =
               int (length participants - nat ((n_teams - 1) * team_size))"
      using size[OF k1] by simp
    also have "\<dots> = N - (n_teams - 1) * team_size"
      using nn bounds(1) unfolding N_def by linarith
    finally show "int (length (team_members d bid n_teams)) = N - (n_teams - 1) * team_size" .
  qed
  show ?thesis
    unfolding Let_def d_def[symmetric] N_def[symmetric] n_teams_def[symmetric]
    using bounds numbers users lookup full last by blast
qed


lemma solo_filter_below:
  "k \<le> int n \<Longrightarrow>
   filter (\<lambda>t. t_team_number t = k) (map (\<lambda>(j, u). team_row bid (int j + 1) u) (enumerate n us)) = []"
proof (induction us arbitrary: n)
  case Nil
  then show ?case by simp
next
  case (Cons u us)
  then show ?case using Cons.IH[of "Suc n"] by simp
qed

lemma solo_filter_at:
  "i < length us \<Longrightarrow>
   filter (\<lambda>t. t_team_number t = int (n + i) + 1)
     (map (\<lambda>(j, u). team_row bid (int j + 1) u) (enumerate n us)) =
   [team_row bid (int (n + i) + 1) (us ! i)]"
proof (induction us arbitrary: n i)
  case Nil
  then show ?case by simp
next
  case (Cons u us)
  show ?case
  proof (cases i)
    case 0
    then show ?thesis using solo_filter_below[of "int n + 1" "Suc n" bid us] by simp
  next
    case (Suc k)
    then have "k < length us" using Cons.prems by simp
    then show ?thesis using Cons.IH[of k "Suc n"] Suc by simp
  qed
qed

text \<open>
  Claim C5. With \<open>team_size = 0\<close> every participant is in team 1, which holds them all;
  with \<open>team_size = 1\<close> the participant at shuffle index \<open>i\<close> is alone in team \<open>i + 1\<close>
  and the team numbers are exactly \<open>1..N\<close>.
\<close>

theorem team_assignment_zero_and_solo:
  assumes "distinct participants"
  shows "(let d = wdb (create_teams bid 0 participants w)
          in map t_user_id (team_rows d bid) = participants
           \<and> team_members d bid 1 = participants
           \<and> (\<forall>u\<in>set participants. get_team d bid u = Some 1))
       \<and> (let d = wdb (create_teams bid 1 participants w)
          in map t_user_id (team_rows d bid) = participants
           \<and> t_team_number ` set (team_rows d bid) = {1..int (length participants)}
           \<and> (\<forall>i<length participants.
                 get_team d bid (participants ! i) = Some (int i + 1)
               \<and> team_members d bid (int i + 1) = [participants ! i]))"
proof -
  define d0 where "d0 = wdb (create_teams bid 0 participants w)"
  define d1 where "d1 = wdb (create_teams bid 1 participants w)"
  have rows0: "team_rows d0 bid = map (team_row bid 1) participants"
    unfolding d0_def by (rule create_teams_one_rows[OF _ assms]) simp
  have rows1: "team_rows d1 bid =
      map (\<lambda>(j, u). team_row bid (int j + 1) u) (enumerate 0 participants)"
    unfolding d1_def by (rule create_teams_solo_rows[OF assms])
  have a1: "map t_user_id (team_rows d0 bid) = participants"
    unfolding rows0 by (simp add: comp_def)
  have a2: "team_members d0 bid 1 = participants"
    unfolding team_members_def rows0 by (simp add: comp_def filter_map)
  have a3: "\<forall>u\<in>set participants. get_team d0 bid u = Some 1"
  proof
    fix u assume "u \<in> set participants"
    then obtain t where "find (\<lambda>t. t_user_id t = u) (map (team_row bid 1) participants) = Some t"
      by (cases "find (\<lambda>t. t_user_id t = u) (map (team_row bid 1) participants)")
         (auto simp: find_None_iff)
    moreover from this have "t \<in> set (map (team_row bid 1) participants)"
      by (auto simp: find_Some_iff)
    ultimately show "get_team d0 bid u = Some 1"
      unfolding get_team_rows rows0 by auto
  qed
  have b1: "map t_user_id (team_rows d1 bid) = participants"
  proof -
    have "map t_user_id (team_rows d1 bid) = map snd (enumerate 0 participants)"
      unfolding rows1 by (simp add: case_prod_beta comp_def)
    then show ?thesis by simp
  qed
  have b2: "t_team_number ` set (team_rows d1 bid) = {1..int (length participants)}"
  proof -
    have "map t_team_number (team_rows d1 bid) =
          map ((\<lambda>j. int j + 1) \<circ> fst) (enumerate 0 participants)"
      unfolding rows1 by (simp add: case_prod_beta comp_def)
    also have "\<dots> = map (\<lambda>j. int j + 1) (map fst (enumerate 0 participants))"
      by (simp only: map_map)
    also have "\<dots> = map (\<lambda>j. int j + 1) [0..<length participants]"
      by simp
    finally have "t_team_number ` set (team_rows d1 bid) =
        (\<lambda>j. int j + 1) ` {0..<length participants}"
      by (metis set_map set_upt)
    also have "\<dots> = {1..int (length participants)}"
    proof (intro equalityI subsetI)
      fix k assume "k \<in> (\<lambda>j. int j + 1) ` {0..<length participants}"
      then show "k \<in> {1..int (length participants)}" by auto
    next
      fix k assume "k \<in> {1..int (length participants)}"
      then have "nat (k - 1) \<in> {0..<length participants}" "int (nat (k - 1)) + 1 = k" by auto
      then show "k \<in> (\<lambda>j. int j + 1) ` {0..<length participants}" by force
    qed
    finally show ?thesis .
  qed
  have b3: "\<forall>i<length participants.
      get_team d1 bid (participants ! i) = Some (int i + 1)
    \<and> team_members d1 bid (int i + 1) = [participants ! i]"
  proof (intro allI impI conjI)
    fix i assume i: "i < length participants"
    have "find (\<lambda>t. t_user_id t = participants ! i) (team_rows d1 bid) =
          Some (team_row bid (int (0 + i) + 1) (participants ! i))"
      unfolding rows1
      using find_enumerate_row[OF assms i, of "\<lambda>(j, u). team_row bid (int j + 1) u" 0]
      by simp
    then show "get_team d1 bid (participants ! i) = Some (int i + 1)"
      by (simp add: get_team_rows)
    show "team_members d1 bid (int i + 1) = [participants ! i]"
      unfolding team_members_def rows1 using solo_filter_at[OF i, of 0 bid] by simp
  qed
  show ?thesis
    unfolding Let_def d0_def[symmetric] d1_def[symmetric]
    using a1 a2 a3 b1 b2 b3 by blast
qed

lemmas eval_db_defs =
  create_teams_def logged_def clear_teams_def set_team_def team_rows_def team_members_def
  get_team_def demo_world_def demo_db_def

theorem team_assignment_chunks_witness:
  "(2::int) \<le> 2 \<and> distinct [11, 12, 13, 14, 15 :: int]
   \<and> team_members (wdb (create_teams 1 2 [11, 12, 13, 14, 15] demo_world)) 1 1 = [11, 12]
   \<and> team_members (wdb (create_teams 1 2 [11, 12, 13, 14, 15] demo_world)) 1 2 = [13, 14]
   \<and> team_members (wdb (create_teams 1 2 [11, 12, 13, 14, 15] demo_world)) 1 3 = [15]
   \<and> t_team_number ` set (team_rows (wdb (create_teams 1 2 [11, 12, 13, 14, 15] demo_world)) 1)
       = {1..3}"
proof -
  have h1: "(2::int) \<le> 2" by simp
  have h2: "distinct [11, 12, 13, 14, 15 :: int]" by simp
  have n: "(int (length [11, 12, 13, 14, 15 :: int]) + 2 - 1) div 2 = 3" by simp
  have s: "t_team_number ` set (team_rows (wdb (create_teams 1 2 [11, 12, 13, 14, 15] demo_world)) 1)
       = {1..3}"
    using team_assignment_chunks[OF h1 h2, of 1 demo_world] unfolding Let_def n by blast
  have m: "team_members (wdb (create_teams 1 2 [11, 12, 13, 14, 15] demo_world)) 1 1 = [11, 12]"
    "team_members (wdb (create_teams 1 2 [11, 12, 13, 14, 15] demo_world)) 1 2 = [13, 14]"
    "team_members (wdb (create_teams 1 2 [11, 12, 13, 14, 15] demo_world)) 1 3 = [15]"
    by (simp_all add: eval_db_defs)
  show ?thesis using h1 h2 s m by blast
qed

theorem team_assignment_zero_and_solo_witness:
  "distinct [11, 12, 13 :: int]
   \<and> team_members (wdb (create_teams 1 0 [11, 12, 13] demo_world)) 1 1 = [11, 12, 13]
   \<and> get_team (wdb (create_teams 1 1 [11, 12, 13] demo_world)) 1 13 = Some 3
   \<and> team_members (wdb (create_teams 1 1 [11, 12, 13] demo_world)) 1 2 = [12]"
proof -
  have h: "distinct [11, 12, 13 :: int]" by simp
  have a: "team_members (wdb (create_teams 1 0 [11, 12, 13] demo_world)) 1 1 = [11, 12, 13]"
    using team_assignment_zero_and_solo[OF h, of 1 demo_world] unfolding Let_def by blast
  have b: "get_team (wdb (create_teams 1 1 [11, 12, 13] demo_world)) 1 13 = Some 3"
    "team_members (wdb (create_teams 1 1 [11, 12, 13] demo_world)) 1 2 = [12]"
    by (simp_all add: eval_db_defs)
  show ?thesis using h a b by blast
qed

lemma emoji_distinct:
  "APPROVE_EMOJI \<noteq> SIGNUP_EMOJI" "APPROVE_EMOJI \<noteq> UNSIGN_EMOJI" "SIGNUP_EMOJI \<noteq> UNSIGN_EMOJI"
  by (simp_all add: APPROVE_EMOJI_def SIGNUP_EMOJI_def UNSIGN_EMOJI_def)

lemma approver_allowed_capability:
  "approver_allowed e guild mode u \<Longrightarrow> has_capability e guild u"
  by (cases mode) (simp_all add: approver_allowed_def)

text \<open>
  Claim C8. An approval reaction by a user who holds neither \<open>manage_guild\<close> nor
  \<open>administrator\<close> (or who cannot be obtained as a member) changes nothing, whatever the
  approval mode of the active bingo: the database is the same, so no approval row is
  inserted and no status changes, and the history is the same, so no message is sent.
\<close>

theorem unauthorized_approval_ignored:
  assumes "p_emoji payload = APPROVE_EMOJI"
      and "p_guild_id payload = Some guild"
      and "\<not> has_capability e guild (p_user_id payload)"
  shows "on_raw_reaction_add e now payload w = w"
  using assms approver_allowed_capability[of e guild _ "p_user_id payload"]
  by (auto simp: on_raw_reaction_add_def emoji_distinct split: option.splits)

lemmas eval_handler_defs =
  on_raw_reaction_add_def record_approval_def approve_by_def truthy_def is_signup_post_def
  approver_allowed_def has_capability_def get_guild_settings_def get_active_bingo_def
  active_status_def get_submission_by_message_def add_approval_def count_approvals_def
  set_submission_status_def update_leaderboard_def emit_def logged_def
  set_leaderboard_message_id_def
  demo_env_def demo_world_def demo_db_def demo_gs_def demo_bingo_def demo_pending_def
  demo_approved_def emoji_distinct

theorem unauthorized_approval_ignored_witness:
  "p_emoji (approve_by 200 600) = APPROVE_EMOJI
   \<and> p_guild_id (approve_by 200 600) = Some 1
   \<and> \<not> has_capability demo_env 1 (p_user_id (approve_by 200 600))
   \<and> get_submission_by_message (wdb demo_world) 600 = Some demo_pending
   \<and> on_raw_reaction_add demo_env 70 (approve_by 200 600) demo_world = demo_world
   \<and> approvals (wdb (on_raw_reaction_add demo_env 70 (approve_by 100 600) demo_world))
       = approvals demo_db @ [\<lparr>a_submission_id = 1, a_user_id = 100, a_approved_at_utc = 70\<rparr>]"
proof -
  have h: "p_emoji (approve_by 200 600) = APPROVE_EMOJI"
    "p_guild_id (approve_by 200 600) = Some 1"
    "\<not> has_capability demo_env 1 (p_user_id (approve_by 200 600))"
    by (simp_all add: approve_by_def has_capability_def demo_env_def)
  have s: "get_submission_by_message (wdb demo_world) 600 = Some demo_pending"
    by (simp add: eval_handler_defs)
  have a: "approvals (wdb (on_raw_reaction_add demo_env 70 (approve_by 100 600) demo_world))
       = approvals demo_db @ [\<lparr>a_submission_id = 1, a_user_id = 100, a_approved_at_utc = 70\<rparr>]"
    by (simp add: eval_handler_defs)
  show ?thesis
    using h s a unauthorized_approval_ignored[OF h, of 70 demo_world] by blast
qed

lemma update_leaderboard_frame [simp]:
  "approvals (wdb (update_leaderboard e g gs b w)) = approvals (wdb w)"
  "submissions (wdb (update_leaderboard e g gs b w)) = submissions (wdb w)"
  "signups (wdb (update_leaderboard e g gs b w)) = signups (wdb w)"
  "teams (wdb (update_leaderboard e g gs b w)) = teams (wdb w)"
  "guild_settings_tbl (wdb (update_leaderboard e g gs b w)) = guild_settings_tbl (wdb w)"
  by (simp_all add: update_leaderboard_def emit_def logged_def set_leaderboard_message_id_def
        Let_def split: option.splits)

lemma try_send_board_db [simp]: "wdb (try_send_board e g gs b w) = wdb w"
  by (simp add: try_send_board_def emit_def split: option.splits)

lemma reaction_reaches_record_approval:
  assumes "p_user_id payload \<noteq> bot_user_id e"
      and "p_guild_id payload = Some guild" "guild \<noteq> 0" "guild_known e guild"
      and "get_guild_settings (wdb w) guild = Some gs"
      and "get_active_bingo (wdb w) guild = Some bingo"
      and "\<not> is_signup_post bingo (p_message_id payload)"
      and "p_emoji payload = APPROVE_EMOJI"
      and "get_submission_by_message (wdb w) (p_message_id payload) = Some sub"
      and "s_status sub = Pending"
      and "approver_allowed e guild (b_approvals_mode bingo) (p_user_id payload)"
  shows "on_raw_reaction_add e now payload w =
           record_approval e now guild gs sub (p_user_id payload) w"
  using assms by (simp add: on_raw_reaction_add_def truthy_def)

lemma record_approval_approvals:
  "approvals (wdb (record_approval e now guild gs sub uid w)) =
   approvals (add_approval (s_id sub) uid now (wdb w))"
  by (simp add: record_approval_def Let_def logged_def emit_def set_submission_status_def
        split: option.splits prod.splits)

lemma record_approval_submissions:
  "submissions (wdb (record_approval e now guild gs sub uid w)) =
   (if s_approvals_required sub \<le> count_approvals (add_approval (s_id sub) uid now (wdb w)) (s_id sub)
    then submissions (set_submission_status (s_id sub) Approved (wdb w))
    else submissions (wdb w))"
  by (simp add: record_approval_def Let_def logged_def emit_def set_submission_status_def
        add_approval_def split: option.splits prod.splits)

lemma find_map_status:
  "find (\<lambda>s. s_message_id s = m) (map (\<lambda>s. if s_id s = sid then s\<lparr>s_status := st\<rparr> else s) xs) =
   map_option (\<lambda>s. if s_id s = sid then s\<lparr>s_status := st\<rparr> else s) (find (\<lambda>s. s_message_id s = m) xs)"
  by (induction xs) auto

lemma approvals_pk_add: "approvals_pk d \<Longrightarrow> approvals_pk (add_approval sid uid now d)"
  by (auto simp: approvals_pk_def add_approval_def list_ex_iff)

lemma recorded_iff:
  "list_ex (\<lambda>a. a_submission_id a = sid \<and> a_user_id a = uid) (approvals d)
     \<longleftrightarrow> uid \<in> set (approvers d sid)"
  by (auto simp: approvers_def list_ex_iff)

lemma approvers_add:
  "set (approvers (add_approval sid uid now d) sid) = insert uid (set (approvers d sid))"
proof (cases "list_ex (\<lambda>a. a_submission_id a = sid \<and> a_user_id a = uid) (approvals d)")
  case True
  then have "add_approval sid uid now d = d" by (simp add: add_approval_def)
  moreover have "uid \<in> set (approvers d sid)" using True by (simp add: recorded_iff)
  ultimately show ?thesis by auto
next
  case False
  then have "approvers (add_approval sid uid now d) sid = approvers d sid @ [uid]"
    by (simp add: add_approval_def approvers_def)
  then show ?thesis by simp
qed

lemma approvers_distinct: "approvals_pk d \<Longrightarrow> distinct (approvers d sid)"
proof -
  assume pk: "approvals_pk d"
  have "distinct (map (\<lambda>a. (a_submission_id a, a_user_id a)) (filter (\<lambda>a. a_submission_id a = sid) (approvals d)))"
    using pk unfolding approvals_pk_def by (rule distinct_map_filter)
  then have "distinct (map a_user_id (filter (\<lambda>a. a_submission_id a = sid) (approvals d)))"
    by (auto simp: distinct_map inj_on_def)
  then show ?thesis by (simp add: approvers_def)
qed

lemma count_approvals_card:
  "approvals_pk d \<Longrightarrow> count_approvals d sid = int (card (set (approvers d sid)))"
  using approvers_distinct[of d sid]
  by (simp add: distinct_card) (simp add: count_approvals_def approvers_def)

text \<open>
  Claim C1. Take an approval reaction that passes every guard of \<open>on_raw_reaction_add\<close>:
  it is not the bot's, the guild is known and configured, there is an active bingo, the
  message is not the signup post but the post of a pending submission \<open>sub\<close>, and the
  approval mode lets the user approve. On a database whose approvals satisfy their primary
  key, the approvers recorded for \<open>sub\<close> afterwards are the earlier ones and this user;
  \<open>count_approvals\<close> is the number of distinct approvers; the submission is approved
  afterwards exactly when that number is at least \<open>approvals_required\<close> of the submission
  row, and is still pending otherwise; and a user already recorded leaves the approvals
  table and the count as they were.
\<close>

theorem approval_quorum:
  assumes "p_user_id payload \<noteq> bot_user_id e"
      and "p_guild_id payload = Some guild" "guild \<noteq> 0" "guild_known e guild"
      and "get_guild_settings (wdb w) guild = Some gs"
      and "get_active_bingo (wdb w) guild = Some bingo"
      and "\<not> is_signup_post bingo (p_message_id payload)"
      and "p_emoji payload = APPROVE_EMOJI"
      and "get_submission_by_message (wdb w) (p_message_id payload) = Some sub"
      and "s_status sub = Pending"
      and "approver_allowed e guild (b_approvals_mode bingo) (p_user_id payload)"
      and "approvals_pk (wdb w)"
  shows "let d = wdb w; d' = wdb (on_raw_reaction_add e now payload w)
         in set (approvers d' (s_id sub)) = insert (p_user_id payload) (set (approvers d (s_id sub)))
          \<and> count_approvals d' (s_id sub) = int (card (set (approvers d' (s_id sub))))
          \<and> (submission_status_of d' (p_message_id payload) = Some Approved
               \<longleftrightarrow> s_approvals_required sub \<le> int (card (set (approvers d' (s_id sub)))))
          \<and> (submission_status_of d' (p_message_id payload) \<noteq> Some Approved
               \<longrightarrow> submission_status_of d' (p_message_id payload) = Some Pending)
          \<and> (p_user_id payload \<in> set (approvers d (s_id sub))
               \<longrightarrow> approvals d' = approvals d
                 \<and> count_approvals d' (s_id sub) = count_approvals d (s_id sub))"
proof -
  define d where "d = wdb w"
  define d' where "d' = wdb (on_raw_reaction_add e now payload w)"
  define uid where "uid = p_user_id payload"
  define sid where "sid = s_id sub"
  have run: "on_raw_reaction_add e now payload w = record_approval e now guild gs sub uid w"
    unfolding uid_def by (rule reaction_reaches_record_approval[OF assms(1-11)])
  have appr: "approvals d' = approvals (add_approval sid uid now d)"
    unfolding d'_def d_def sid_def run by (rule record_approval_approvals)
  have pk': "approvals_pk d'"
    using approvals_pk_add[OF assms(12), of sid uid now] appr
    unfolding approvals_pk_def d_def by simp
  have cong: "approvers d' sid = approvers (add_approval sid uid now d) sid"
    "count_approvals d' sid = count_approvals (add_approval sid uid now d) sid"
    using appr by (simp_all add: approvers_def count_approvals_def)
  have a: "set (approvers d' sid) = insert uid (set (approvers d sid))"
    unfolding cong by (rule approvers_add)
  have b: "count_approvals d' sid = int (card (set (approvers d' sid)))"
    by (rule count_approvals_card[OF pk'])
  have subs: "submissions d' =
     (if s_approvals_required sub \<le> count_approvals d' sid
      then submissions (set_submission_status sid Approved d) else submissions d)"
    unfolding cong(2) unfolding d'_def run d_def sid_def
    by (rule record_approval_submissions)
  have found: "find (\<lambda>s. s_message_id s = p_message_id payload) (submissions d) = Some sub"
    using assms(9) unfolding d_def get_submission_by_message_def .
  have st: "submission_status_of d' (p_message_id payload) =
     Some (if s_approvals_required sub \<le> count_approvals d' sid then Approved else Pending)"
  proof (cases "s_approvals_required sub \<le> count_approvals d' sid")
    case True
    then have "submissions d' =
        map (\<lambda>s. if s_id s = sid then s\<lparr>s_status := Approved\<rparr> else s) (submissions d)"
      using subs by (simp add: set_submission_status_def)
    then show ?thesis
      using True found
      by (simp add: submission_status_of_def get_submission_by_message_def find_map_status sid_def)
  next
    case False
    then have "submissions d' = submissions d" using subs by simp
    then show ?thesis
      using False found assms(10)
      by (simp add: submission_status_of_def get_submission_by_message_def)
  qed
  have c: "submission_status_of d' (p_message_id payload) = Some Approved
      \<longleftrightarrow> s_approvals_required sub \<le> int (card (set (approvers d' sid)))"
    unfolding st b[symmetric] by simp
  have c': "submission_status_of d' (p_message_id payload) \<noteq> Some Approved
      \<longrightarrow> submission_status_of d' (p_message_id payload) = Some Pending"
    unfolding st by simp
  have r: "uid \<in> set (approvers d sid)
      \<longrightarrow> approvals d' = approvals d \<and> count_approvals d' sid = count_approvals d sid"
  proof
    assume "uid \<in> set (approvers d sid)"
    then have "add_approval sid uid now d = d"
      by (simp add: add_approval_def recorded_iff)
    then show "approvals d' = approvals d \<and> count_approvals d' sid = count_approvals d sid"
      using appr cong(2) by simp
  qed
  show ?thesis
    unfolding Let_def d_def[symmetric] d'_def[symmetric] uid_def[symmetric] sid_def[symmetric]
    using a b c c' r by blast
qed


text \<open>
  Claim C3. An approval reaction on the post of a submission that is already approved
  changes nothing: the handler returns at the status check, so the database (approvals and
  statuses included) and the history (no announcement, no leaderboard update) are as
  before.
\<close>

theorem approved_submission_latched:
  assumes "p_emoji payload = APPROVE_EMOJI"
      and "get_submission_by_message (wdb w) (p_message_id payload) = Some sub"
      and "s_status sub = Approved"
  shows "on_raw_reaction_add e now payload w = w"
  using assms
  by (auto simp: on_raw_reaction_add_def emoji_distinct split: option.splits)

theorem approved_submission_latched_witness:
  "p_emoji (approve_by 101 601) = APPROVE_EMOJI
   \<and> get_submission_by_message (wdb demo_world) (p_message_id (approve_by 101 601)) = Some demo_approved
   \<and> s_status demo_approved = Approved
   \<and> approver_allowed demo_env 1 ModeAdmin 101
   \<and> on_raw_reaction_add demo_env 70 (approve_by 101 601) demo_world = demo_world"
proof -
  have h: "p_emoji (approve_by 101 601) = APPROVE_EMOJI"
    "get_submission_by_message (wdb demo_world) (p_message_id (approve_by 101 601)) = Some demo_approved"
    "s_status demo_approved = Approved"
    by (simp_all add: eval_handler_defs)
  have a: "approver_allowed demo_env 1 ModeAdmin 101"
    by (simp add: eval_handler_defs)
  show ?thesis
    using h a approved_submission_latched[OF h, of demo_env 70] by blast
qed

theorem approval_quorum_witness:
  "p_user_id (approve_by 100 600) \<noteq> bot_user_id demo_env
   \<and> p_guild_id (approve_by 100 600) = Some 1 \<and> (1::int) \<noteq> 0 \<and> guild_known demo_env 1
   \<and> get_guild_settings (wdb demo_world) 1 = Some demo_gs
   \<and> get_active_bingo (wdb demo_world) 1 = Some demo_bingo
   \<and> \<not> is_signup_post demo_bingo (p_message_id (approve_by 100 600))
   \<and> p_emoji (approve_by 100 600) = APPROVE_EMOJI
   \<and> get_submission_by_message (wdb demo_world) (p_message_id (approve_by 100 600))
        = Some demo_pending
   \<and> s_status demo_pending = Pending
   \<and> approver_allowed demo_env 1 (b_approvals_mode demo_bingo) (p_user_id (approve_by 100 600))
   \<and> approvals_pk (wdb demo_world)
   \<and> set (approvers (wdb (on_raw_reaction_add demo_env 70 (approve_by 100 600) demo_world)) 1)
        = {100}
   \<and> submission_status_of
        (wdb (on_raw_reaction_add demo_env 70 (approve_by 100 600) demo_world)) 600 = Some Pending
   \<and> submission_status_of
        (wdb (on_raw_reaction_add demo_env 72 (approve_by 101 600)
               (on_raw_reaction_add demo_env 71 (approve_by 100 600)
                 (on_raw_reaction_add demo_env 70 (approve_by 100 600) demo_world)))) 600
        = Some Approved"
proof -
  have h: "p_user_id (approve_by 100 600) \<noteq> bot_user_id demo_env"
    "p_guild_id (approve_by 100 600) = Some 1" "(1::int) \<noteq> 0" "guild_known demo_env 1"
    "get_guild_settings (wdb demo_world) 1 = Some demo_gs"
    "get_active_bingo (wdb demo_world) 1 = Some demo_bingo"
    "\<not> is_signup_post demo_bingo (p_message_id (approve_by 100 600))"
    "p_emoji (approve_by 100 600) = APPROVE_EMOJI"
    "get_submission_by_message (wdb demo_world) (p_message_id (approve_by 100 600))
        = Some demo_pending"
    "s_status demo_pending = Pending"
    "approver_allowed demo_env 1 (b_approvals_mode demo_bingo) (p_user_id (approve_by 100 600))"
    "approvals_pk (wdb demo_world)"
    by (simp_all add: eval_handler_defs approvals_pk_def)
  note t = approval_quorum[OF h, of 70, unfolded Let_def]
  have e0: "approvers (wdb demo_world) 1 = []"
    "s_id demo_pending = 1" "p_user_id (approve_by 100 600) = 100"
    by (simp_all add: approvers_def eval_handler_defs)
  have a: "set (approvers (wdb (on_raw_reaction_add demo_env 70 (approve_by 100 600) demo_world)) 1)
        = {100}"
    using t unfolding e0 by simp
  have b: "submission_status_of
        (wdb (on_raw_reaction_add demo_env 70 (approve_by 100 600) demo_world)) 600 = Some Pending"
    by (simp add: eval_handler_defs submission_status_of_def)
  have c: "submission_status_of
        (wdb (on_raw_reaction_add demo_env 72 (approve_by 101 600)
               (on_raw_reaction_add demo_env 71 (approve_by 100 600)
                 (on_raw_reaction_add demo_env 70 (approve_by 100 600) demo_world)))) 600
        = Some Approved"
    by (simp add: eval_handler_defs submission_status_of_def)
  show ?thesis using h a b c by blast
qed

lemma effect_okI:
  "trace w' = trace w @ xs \<Longrightarrow> list_all A xs \<Longrightarrow> list_all2 R (bingos (wdb w)) (bingos (wdb w'))
   \<Longrightarrow> effect_ok A R w w'"
  by (simp add: effect_ok_def new_actions_def)

lemma effect_ok_refl: "(\<And>b. R b b) \<Longrightarrow> effect_ok A R w w"
  by (simp add: effect_ok_def new_actions_def list_all2_same)

lemma effect_ok_trans:
  assumes "effect_ok A R w w1" "effect_ok A R w1 w2"
      and "\<And>a b c. R a b \<Longrightarrow> R b c \<Longrightarrow> R a c"
  shows "effect_ok A R w w2"
proof -
  have t: "trace w2 = trace w @ (new_actions w w1 @ new_actions w1 w2)"
    using assms(1,2) by (simp add: effect_ok_def)
  have "list_all2 R (bingos (wdb w)) (bingos (wdb w2))"
    using assms by (auto simp: effect_ok_def elim: list_all2_trans[rotated])
  moreover have "list_all A (new_actions w w1 @ new_actions w1 w2)"
    using assms(1,2) by (simp add: effect_ok_def)
  ultimately show ?thesis using t by (intro effect_okI)
qed

lemma status_step_refl: "status_step bid sc b b"
  by (simp add: status_step_def)

lemma status_step_trans:
  "status_step bid sc a b \<Longrightarrow> status_step bid sc b c \<Longrightarrow> status_step bid sc a c"
  by (auto simp: status_step_def)

lemma effect_logged:
  assumes "A (Write a)" "list_all2 R (bingos (wdb w)) (bingos (f (wdb w)))"
  shows "effect_ok A R w (logged a f w)"
  using assms by (intro effect_okI[where xs = "[Write a]"]) (simp_all add: logged_def)

lemma effect_emit:
  assumes "A (Out c)" "\<And>b. R b b"
  shows "effect_ok A R w (snd (emit e c w))"
  using assms by (intro effect_okI[where xs = "[Out c]"]) (simp_all add: emit_def list_all2_same)


lemma engine_ok_refl: "engine_ok s w w"
  unfolding engine_ok_def by (rule effect_ok_refl) (rule status_step_refl)

lemma engine_ok_trans: "engine_ok s w w1 \<Longrightarrow> engine_ok s w1 w2 \<Longrightarrow> engine_ok s w w2"
  unfolding engine_ok_def by (erule (1) effect_ok_trans) (rule status_step_trans)

lemma engine_logged_same:
  "engine_may s (Write a) \<Longrightarrow> bingos (f (wdb w)) = bingos (wdb w) \<Longrightarrow> engine_ok s w (logged a f w)"
  unfolding engine_ok_def
  by (rule effect_logged) (simp_all add: list_all2_same status_step_refl)

lemma engine_emit: "engine_may s (Out c) \<Longrightarrow> engine_ok s w (snd (emit e c w))"
  unfolding engine_ok_def by (rule effect_emit) (simp_all add: status_step_refl)

lemma engine_set_status:
  "may_write (b_status s) st \<Longrightarrow>
   engine_ok s w (logged (SetStatus (b_id s) st) (set_status (b_id s) st) w)"
  unfolding engine_ok_def
  by (rule effect_logged)
     (simp_all add: set_status_def list_all2_map2 list_all2_same status_step_def)

lemma engine_set_lb:
  "b_status s = SignupOpen \<Longrightarrow>
   engine_ok s w (logged (SetLeaderboardMessageId (b_id s) m)
                   (set_leaderboard_message_id (b_id s) m) w)"
  unfolding engine_ok_def
  by (rule effect_logged)
     (simp_all add: set_leaderboard_message_id_def list_all2_map2 list_all2_same status_step_def)

lemma set_team_bingos [simp]: "bingos (set_team bid u k d) = bingos d"
  by (simp add: set_team_def)

lemma engine_assign_one_team:
  "b_status s = SignupOpen \<Longrightarrow> engine_ok s w (assign_one_team (b_id s) us w)"
proof (induction us arbitrary: w)
  case Nil
  show ?case by (simp add: engine_ok_refl)
next
  case (Cons u us)
  have "engine_ok s w (logged (SetTeam (b_id s) u 1) (set_team (b_id s) u 1) w)"
    using Cons.prems by (intro engine_logged_same) simp_all
  then show ?case using Cons.IH[OF Cons.prems] by (auto intro: engine_ok_trans)
qed

lemma engine_assign_solo:
  "b_status s = SignupOpen \<Longrightarrow> engine_ok s w (assign_solo (b_id s) idx us w)"
proof (induction us arbitrary: w idx)
  case Nil
  show ?case by (simp add: engine_ok_refl)
next
  case (Cons u us)
  have "engine_ok s w (logged (SetTeam (b_id s) u idx) (set_team (b_id s) u idx) w)"
    using Cons.prems by (intro engine_logged_same) simp_all
  then show ?case using Cons.IH[OF Cons.prems] by (auto intro: engine_ok_trans)
qed

lemma engine_assign_chunks:
  "b_status s = SignupOpen \<Longrightarrow> engine_ok s w (assign_chunks (b_id s) ts tn i us w)"
proof (induction us arbitrary: w tn i)
  case Nil
  show ?case by (simp add: engine_ok_refl)
next
  case (Cons u us)
  have "engine_ok s w (logged (SetTeam (b_id s) u tn) (set_team (b_id s) u tn) w)"
    using Cons.prems by (intro engine_logged_same) simp_all
  then show ?case using Cons.IH[OF Cons.prems] by (auto intro: engine_ok_trans)
qed

lemma engine_create_teams:
  assumes "b_status s = SignupOpen"
  shows "engine_ok s w (create_teams (b_id s) ts us w)"
proof -
  have "engine_ok s w (logged (ClearTeams (b_id s)) (clear_teams (b_id s)) w)"
    using assms by (intro engine_logged_same) (simp_all add: clear_teams_def)
  then show ?thesis
    unfolding create_teams_def Let_def
    using engine_assign_one_team[OF assms] engine_assign_solo[OF assms]
      engine_assign_chunks[OF assms]
    by (auto intro: engine_ok_trans)
qed

lemma engine_try_send_board:
  assumes "engine_may s (Out (SendMsg (board_channel_id gs) (BoardMsg (b_name s) (the (b_board_image_path s)))))"
  shows "engine_ok s w (try_send_board e g gs s w)"
  using assms
  by (auto simp: try_send_board_def engine_ok_refl intro: engine_emit split: option.splits)

lemma emit_cases:
  "(case emit e c w of (None, w1) \<Rightarrow> f w1 | (Some m, w1) \<Rightarrow> g m w1) =
   (case fst (emit e c w) of None \<Rightarrow> f (snd (emit e c w)) | Some m \<Rightarrow> g m (snd (emit e c w)))"
  by (simp split: prod.splits option.splits)

lemma engine_update_leaderboard:
  assumes "b_status s = SignupOpen"
  shows "engine_ok s w (update_leaderboard e g gs s w)"
proof -
  have 1: "engine_ok s w (snd (emit e (FetchMsg c m) w))" for c m w
    using assms by (intro engine_emit) simp
  have 2: "engine_ok s w (snd (emit e (EditMsg m (LeaderboardMsg n cs)) w))" for m n cs w
    using assms by (intro engine_emit) simp
  have 3: "engine_ok s w (snd (emit e (SendMsg c (LeaderboardMsg n cs)) w))" for c n cs w
    using assms by (intro engine_emit) simp
  show ?thesis
    unfolding update_leaderboard_def Let_def emit_cases
    by (auto simp: engine_ok_refl 1 3 split: option.splits
          intro: engine_ok_trans[OF 1 2] engine_ok_trans[OF 3 engine_set_lb[OF assms]])
qed

lemma engine_close_signups:
  assumes "b_status s = SignupOpen"
  shows "engine_ok s w (snd (close_signups e g gs s w))"
proof -
  let ?w1 = "logged (SetStatus (b_id s) SignupClosed) (set_status (b_id s) SignupClosed) w"
  let ?w2 = "create_teams (b_id s) (b_team_size s) (shuffle e (list_signups (wdb ?w1) (b_id s))) ?w1"
  have 1: "engine_ok s w ?w1"
    using assms by (intro engine_set_status) (simp add: may_write_def)
  have 2: "engine_ok s w ?w2"
    by (rule engine_ok_trans[OF 1 engine_create_teams[OF assms]])
  have 3: "engine_ok s v (snd (emit e (SendMsg c (SignupsClosedMsg n ls)) v))" for c n ls v
    using assms by (intro engine_emit) simp
  have 4: "engine_ok s v (try_send_board e g gs s v)" if "b_show_board_when s = SignupsClose" for v
    using assms that by (intro engine_try_send_board) simp
  have 5: "engine_ok s v (update_leaderboard e g gs s v)" for v
    by (rule engine_update_leaderboard[OF assms])
  show ?thesis
  proof (cases "text_channel e g (announcements_channel_id gs)")
    case False
    then show ?thesis
      unfolding close_signups_def Let_def
      by (auto intro: engine_ok_trans[OF 2 5] engine_ok_trans[OF 2 engine_ok_trans[OF 4 5]])
  next
    case True
    then show ?thesis
      unfolding close_signups_def Let_def case_prod_beta
      by (auto intro: engine_ok_trans[OF 2 3] engine_ok_trans[OF 2 engine_ok_trans[OF 3 5]]
                 engine_ok_trans[OF 2 engine_ok_trans[OF 3 engine_ok_trans[OF 4 5]]])
  qed
qed


lemma engine_start_bingo:
  assumes "b_status s = SignupOpen \<or> b_status s = SignupClosed"
  shows "engine_ok s w (start_bingo e g gs s w)"
proof -
  let ?w1 = "logged (SetStatus (b_id s) Running) (set_status (b_id s) Running) w"
  have 1: "engine_ok s w ?w1"
    using assms by (intro engine_set_status) (auto simp: may_write_def)
  have 3: "engine_ok s v (snd (emit e (SendMsg c (StartedMsg n)) v))" for c n v
    using assms by (intro engine_emit) simp
  have 4: "engine_ok s v (try_send_board e g gs s v)" if "b_show_board_when s = BingoStart" for v
    using assms that by (intro engine_try_send_board) simp
  show ?thesis
  proof (cases "text_channel e g (announcements_channel_id gs)")
    case False
    then show ?thesis
      unfolding start_bingo_def Let_def
      by (auto intro: 1 engine_ok_trans[OF 1 4])
  next
    case True
    then show ?thesis
      unfolding start_bingo_def Let_def case_prod_beta
      by (auto intro: engine_ok_trans[OF 1 3] engine_ok_trans[OF 1 engine_ok_trans[OF 3 4]])
  qed
qed

lemma engine_handle_bingo_state: "engine_ok s w (handle_bingo_state e now s w)"
proof -
  have c: "engine_ok s w (snd (close_signups e g gs s w))" if "b_status s = SignupOpen" for g gs
    by (rule engine_close_signups[OF that])
  have st: "engine_ok s v (start_bingo e g gs s v)"
    if "b_status s = SignupOpen \<or> b_status s = SignupClosed" for g gs v
    by (rule engine_start_bingo[OF that])
  show ?thesis
    unfolding handle_bingo_state_def Let_def case_prod_beta
    by (auto simp: engine_ok_refl split: option.splits
          intro: c st engine_ok_trans[OF c st])
qed


lemma engine_okD:
  assumes "engine_ok s w w'"
  shows "trace w' = trace w @ new_actions w w'"
    and "list_all (engine_may s) (new_actions w w')"
    and "list_all2 (status_step (b_id s) (b_status s)) (bingos (wdb w)) (bingos (wdb w'))"
  using assms by (simp_all add: engine_ok_def effect_ok_def)

lemma engine_may_status:
  "engine_may s (Write (SetStatus i st)) \<Longrightarrow> st = SignupClosed \<or> st = Running"
  by (auto simp: may_write_def)

lemma engine_may_not_close:
  "b_status s \<noteq> SignupOpen \<Longrightarrow> engine_may s a \<Longrightarrow> \<not> close_effect a"
  by (induction s a rule: engine_may.induct) (auto simp: may_write_def)

lemma engine_may_board:
  "b_status s \<noteq> SignupOpen \<Longrightarrow> engine_may s (Out (SendMsg c (BoardMsg n p)))
   \<Longrightarrow> b_show_board_when s = BingoStart"
  by auto

lemma handle_running_noop:
  "b_status s \<noteq> SignupOpen \<Longrightarrow> b_status s \<noteq> SignupClosed \<Longrightarrow> handle_bingo_state e now s w = w"
  by (simp add: handle_bingo_state_def split: option.splits)

lemma try_send_board_end_utc:
  "try_send_board e g gs (s\<lparr>b_end_utc := x\<rparr>) w = try_send_board e g gs s w"
  by (simp add: try_send_board_def cong: option.case_cong if_cong)

lemma update_leaderboard_end_utc:
  "update_leaderboard e g gs (s\<lparr>b_end_utc := x\<rparr>) w = update_leaderboard e g gs s w"
  by (simp add: update_leaderboard_def Let_def cong: option.case_cong prod.case_cong if_cong)

lemma close_signups_end_utc:
  "close_signups e g gs (s\<lparr>b_end_utc := x\<rparr>) w = close_signups e g gs s w"
  by (simp add: close_signups_def Let_def try_send_board_end_utc update_leaderboard_end_utc
        cong: option.case_cong prod.case_cong if_cong)

lemma start_bingo_end_utc:
  "start_bingo e g gs (s\<lparr>b_end_utc := x\<rparr>) w = start_bingo e g gs s w"
  by (simp add: start_bingo_def Let_def try_send_board_end_utc
        cong: option.case_cong prod.case_cong if_cong)

lemma handle_ignores_end_utc:
  "handle_bingo_state e now (s\<lparr>b_end_utc := x\<rparr>) w = handle_bingo_state e now s w"
  by (simp add: handle_bingo_state_def Let_def close_signups_end_utc start_bingo_end_utc
        cong: option.case_cong prod.case_cong if_cong)

lemma lifecycle_step_refl: "lifecycle_step b b"
  by (simp add: lifecycle_step_def)

lemma lifecycle_step_trans: "lifecycle_step a b \<Longrightarrow> lifecycle_step b c \<Longrightarrow> lifecycle_step a c"
  by (auto simp: lifecycle_step_def may_write_def)

lemma status_step_lifecycle:
  assumes "list_all2 (status_step i sc) bs bs'"
      and "\<forall>b\<in>set bs. b_id b = i \<longrightarrow> b_status b = sc"
  shows "list_all2 lifecycle_step bs bs'"
proof -
  have "lifecycle_step (bs ! k) (bs' ! k)" if "k < length bs" for k
  proof -
    have "status_step i sc (bs ! k) (bs' ! k)"
      using assms(1) that by (simp add: list_all2_conv_all_nth)
    moreover have "b_id (bs ! k) = i \<longrightarrow> b_status (bs ! k) = sc"
      using assms(2) that by simp
    ultimately show ?thesis by (auto simp: status_step_def lifecycle_step_def)
  qed
  then show ?thesis using assms(1) by (simp add: list_all2_conv_all_nth)
qed

lemma status_step_other:
  assumes "list_all2 (status_step i sc) bs bs'" "b' \<in> set bs'" "b_id b' \<noteq> i"
  shows "\<exists>b\<in>set bs. b_id b = b_id b' \<and> b_status b = b_status b'"
proof -
  obtain k where k: "k < length bs'" "bs' ! k = b'" using assms(2) by (auto simp: in_set_conv_nth)
  then have "status_step i sc (bs ! k) b'" "k < length bs"
    using assms(1) by (auto simp: list_all2_conv_all_nth)
  then show ?thesis using assms(3) by (auto simp: status_step_def intro!: bexI[of _ "bs ! k"])
qed


text \<open>The scan list.\<close>

lemma mset_insert_desc: "mset (insert_desc b cs) = add_mset b (mset cs)"
  by (induction cs) auto

lemma mset_get_due_actions:
  "mset (get_due_actions d) =
   mset (filter (\<lambda>b. b_status b = SignupOpen \<or> b_status b = SignupClosed \<or> b_status b = Running)
          (bingos d))"
proof -
  have "mset (foldr insert_desc xs []) = mset xs" for xs
    by (induction xs) (simp_all add: mset_insert_desc)
  then show ?thesis by (simp add: get_due_actions_def)
qed

lemma set_get_due_actions: "set (get_due_actions d) \<subseteq> set (bingos d)"
proof -
  have "set_mset (mset (get_due_actions d)) \<subseteq> set (bingos d)"
    unfolding mset_get_due_actions by auto
  then show ?thesis by simp
qed

lemma distinct_get_due_actions:
  assumes "bingos_pk d"
  shows "distinct (map b_id (get_due_actions d))"
proof -
  let ?f = "filter (\<lambda>b. b_status b = SignupOpen \<or> b_status b = SignupClosed \<or> b_status b = Running)
          (bingos d)"
  have d: "distinct (map b_id ?f)"
    using assms unfolding bingos_pk_def by (rule distinct_map_filter)
  have eq: "mset (map b_id (get_due_actions d)) = mset (map b_id ?f)"
    by (simp add: mset_get_due_actions)
  show ?thesis using d by (simp add: mset_eq_imp_distinct_iff[OF eq])
qed

lemma pk_same_row:
  assumes "bingos_pk d" "r \<in> set (bingos d)" "b \<in> set (bingos d)" "b_id b = b_id r"
  shows "b = r"
proof -
  have "inj_on b_id (set (bingos d))"
    using assms(1) unfolding bingos_pk_def by (simp add: distinct_map)
  then show ?thesis using assms(2-4) by (auto dest: inj_onD)
qed

text \<open>Rows and keys under a step of the lifecycle order.\<close>

lemma lifecycle_ids:
  "list_all2 lifecycle_step bs bs' \<Longrightarrow> map b_id bs' = map b_id bs"
  by (induction rule: list_all2_induct) (simp_all add: lifecycle_step_def)

lemma status_step_ids:
  "list_all2 (status_step i sc) bs bs' \<Longrightarrow> map b_id bs' = map b_id bs"
  by (induction rule: list_all2_induct) (simp_all add: status_step_def)

lemma handle_status_step:
  "list_all2 (status_step (b_id s) (b_status s)) (bingos (wdb w))
     (bingos (wdb (handle_bingo_state e now s w)))"
  by (rule engine_okD(3)[OF engine_handle_bingo_state])

lemma handle_pk: "bingos_pk (wdb w) \<Longrightarrow> bingos_pk (wdb (handle_bingo_state e now s w))"
  using status_step_ids[OF handle_status_step[where s = s and w = w and e = e and now = now]]
  by (simp add: bingos_pk_def)

lemma fresh_rowsD:
  "fresh_rows rs d \<Longrightarrow> r \<in> set rs \<Longrightarrow> b \<in> set (bingos d) \<Longrightarrow> b_id b = b_id r
   \<Longrightarrow> b_status b = b_status r"
  unfolding fresh_rows_def by blast

lemma fresh_rows_after:
  assumes "fresh_rows (r # rs) (wdb w)" "distinct (map b_id (r # rs))"
  shows "fresh_rows rs (wdb (handle_bingo_state e now r w))"
  unfolding fresh_rows_def
proof (intro ballI impI)
  fix r' b' assume r': "r' \<in> set rs" and b': "b' \<in> set (bingos (wdb (handle_bingo_state e now r w)))"
    and eq: "b_id b' = b_id r'"
  have "b_id r' \<in> b_id ` set rs" using r' by (rule imageI)
  moreover have "b_id r \<notin> b_id ` set rs" using assms(2) by simp
  ultimately have ne: "b_id b' \<noteq> b_id r" using eq by metis
  have "\<exists>b\<in>set (bingos (wdb w)). b_id b = b_id b' \<and> b_status b = b_status b'"
    by (rule status_step_other[OF handle_status_step b' ne])
  then obtain b where b: "b \<in> set (bingos (wdb w))" "b_id b = b_id b'" "b_status b = b_status b'"
    by blast
  have "r' \<in> set (r # rs)" using r' by simp
  then have "b_status b = b_status r'"
    using assms(1) b(1) b(2) eq by (intro fresh_rowsD[of "r # rs" "wdb w"]) simp_all
  then show "b_status b' = b_status r'" using b(3) by simp
qed

lemma tick_fold_lifecycle:
  assumes "distinct (map b_id rs)" "fresh_rows rs (wdb w)"
  shows "list_all2 lifecycle_step (bingos (wdb w))
           (bingos (wdb (foldl (\<lambda>v row. handle_bingo_state e now row v) w rs)))"
  using assms
proof (induction rs arbitrary: w)
  case Nil
  then show ?case by (simp add: list_all2_same lifecycle_step_refl)
next
  case (Cons r rs)
  let ?w1 = "handle_bingo_state e now r w"
  have "\<forall>b\<in>set (bingos (wdb w)). b_id b = b_id r \<longrightarrow> b_status b = b_status r"
    using Cons.prems(2) by (simp add: fresh_rows_def)
  then have 1: "list_all2 lifecycle_step (bingos (wdb w)) (bingos (wdb ?w1))"
    by (rule status_step_lifecycle[OF handle_status_step])
  have 2: "list_all2 lifecycle_step (bingos (wdb ?w1))
      (bingos (wdb (foldl (\<lambda>v row. handle_bingo_state e now row v) ?w1 rs)))"
    using Cons.prems by (intro Cons.IH fresh_rows_after) simp_all
  have "list_all2 lifecycle_step (bingos (wdb w))
      (bingos (wdb (foldl (\<lambda>v row. handle_bingo_state e now row v) ?w1 rs)))"
    by (rule list_all2_trans[OF lifecycle_step_trans 1 2])
  then show ?case by simp
qed

lemma fresh_scan:
  assumes "bingos_pk d"
  shows "fresh_rows (get_due_actions d) d"
  unfolding fresh_rows_def
proof (intro ballI impI)
  fix r b assume "r \<in> set (get_due_actions d)" "b \<in> set (bingos d)" "b_id b = b_id r"
  moreover from this have "r \<in> set (bingos d)" using set_get_due_actions[of d] by blast
  ultimately have "b = r" using pk_same_row[OF assms] by blast
  then show "b_status b = b_status r" by simp
qed

lemma tick_lifecycle:
  "bingos_pk (wdb w) \<Longrightarrow>
   list_all2 lifecycle_step (bingos (wdb w)) (bingos (wdb (bingo_tick e now w)))"
  unfolding bingo_tick_def
  by (rule tick_fold_lifecycle[OF distinct_get_due_actions fresh_scan])


text \<open>The handlers other than the tick write no status.\<close>

lemma quiet_refl: "quiet_step b b"
  by (simp add: quiet_step_def)

lemma quiet_trans: "quiet_step a b \<Longrightarrow> quiet_step b c \<Longrightarrow> quiet_step a c"
  by (simp add: quiet_step_def)


lemma quiet_ok_refl: "quiet_ok w w"
  unfolding quiet_ok_def by (rule effect_ok_refl) (rule quiet_refl)

lemma quiet_ok_trans: "quiet_ok w w1 \<Longrightarrow> quiet_ok w1 w2 \<Longrightarrow> quiet_ok w w2"
  unfolding quiet_ok_def by (erule (1) effect_ok_trans) (rule quiet_trans)

lemma quiet_logged:
  "no_status_write (Write a) \<Longrightarrow> bingos (f (wdb w)) = bingos (wdb w) \<Longrightarrow> quiet_ok w (logged a f w)"
  unfolding quiet_ok_def
  by (rule effect_logged) (simp_all add: list_all2_same quiet_refl)

lemma quiet_emit: "quiet_ok w (snd (emit e c w))"
  unfolding quiet_ok_def by (rule effect_emit) (simp_all add: quiet_refl)

lemma quiet_set_lb:
  "quiet_ok w (logged (SetLeaderboardMessageId i m) (set_leaderboard_message_id i m) w)"
  unfolding quiet_ok_def
  by (rule effect_logged)
     (simp_all add: set_leaderboard_message_id_def list_all2_map2 list_all2_same quiet_step_def)

lemma quiet_update_leaderboard: "quiet_ok w (update_leaderboard e g gs s w)"
  unfolding update_leaderboard_def Let_def emit_cases
  by (auto simp: quiet_ok_refl quiet_emit split: option.splits
        intro: quiet_ok_trans[OF quiet_emit quiet_emit] quiet_ok_trans[OF quiet_emit quiet_set_lb])

lemma quiet_attempt:
  assumes "\<And>m v. quiet_ok v (k m v)"
  shows "quiet_ok w (attempt e c w k)"
  unfolding attempt_def emit_cases
  by (auto simp: quiet_emit split: option.splits intro: quiet_ok_trans[OF quiet_emit assms])

lemma quiet_record_approval: "quiet_ok w (record_approval e now g gs sub u w)"
proof -
  have 1: "quiet_ok v (logged (AddApproval i u) (add_approval i u now) v)" for v i
    by (rule quiet_logged) (simp_all add: add_approval_def)
  have 2: "quiet_ok v (logged (SetSubmissionStatus i st) (set_submission_status i st) v)" for v i st
    by (rule quiet_logged) (simp_all add: set_submission_status_def)
  note 12 = quiet_ok_trans[OF 1 2]
  show ?thesis
    unfolding record_approval_def Let_def case_prod_beta
    by (auto simp: 1 split: option.splits
          intro: 12 quiet_ok_trans[OF 12 quiet_update_leaderboard]
                 quiet_ok_trans[OF 12 quiet_emit]
                 quiet_ok_trans[OF 12 quiet_ok_trans[OF quiet_emit quiet_update_leaderboard]])
qed

lemma quiet_reaction_add: "quiet_ok w (on_raw_reaction_add e now p w)"
proof -
  have 1: "quiet_ok v (logged (AddSignup i u) (add_signup i u now) v)" for v i u
    by (rule quiet_logged) (simp_all add: add_signup_def)
  have 2: "quiet_ok v (logged (RemoveSignup i u) (remove_signup i u) v)" for v i u
    by (rule quiet_logged) (simp_all add: remove_signup_def)
  show ?thesis
    unfolding on_raw_reaction_add_def
    by (auto simp: quiet_ok_refl 1 2 quiet_record_approval split: option.splits)
qed

lemma quiet_reaction_remove: "quiet_ok w (on_raw_reaction_remove e p w)"
proof -
  have 2: "quiet_ok v (logged (RemoveSignup i u) (remove_signup i u) v)" for v i u
    by (rule quiet_logged) (simp_all add: remove_signup_def)
  show ?thesis
    unfolding on_raw_reaction_remove_def
    by (auto simp: quiet_ok_refl 2 split: option.splits)
qed

lemma quiet_record_submission:
  "quiet_ok w (record_submission e now req gs b kind m st r w)"
proof -
  have 1: "quiet_ok v (logged (CreateSubmission i) (\<lambda>_. d) v)" if "bingos d = bingos (wdb v)" for v i d
    using that by (intro quiet_logged) simp_all
  have c: "bingos (snd (create_submission a1 a2 a3 a4 a5 a6 a7 a8 a9 d)) = bingos d"
    for a1 a2 a3 a4 a5 a6 a7 a8 a9 d
    by (simp add: create_submission_def Let_def)
  show ?thesis
    unfolding record_submission_def Let_def case_prod_beta
    by (auto simp: 1 c intro: quiet_ok_trans[OF 1 quiet_update_leaderboard])
qed

lemma quiet_store_submission: "quiet_ok w (store_submission e now req gs b kind w)"
  unfolding store_submission_def Let_def
  by (intro quiet_attempt) (auto intro!: quiet_attempt quiet_record_submission)

lemma quiet_handle_submission: "quiet_ok w (handle_submission e now req w)"
  unfolding handle_submission_def
  by (auto simp: quiet_emit split: option.splits
        intro!: quiet_attempt quiet_store_submission quiet_emit)

end
